theory Spec2Isabelle
  imports Main "HOL-Library.AList"
begin

section \<open>Configuration documents\<close>

text \<open>
  The value that \<^verbatim>\<open>yaml.safe_load\<close> hands to the loaders: scalars, sequences and
  mappings. A mapping is an association list in insertion order, as a Python dict
  iterates; its keys are strings. \<open>YInt\<close> stands for every numeric scalar: no function
  modelled here computes with numbers.
\<close>

datatype yval =
    YNull
  | YBool bool
  | YInt int
  | YStr string
  | YList "yval list"
  | YDict "(string \<times> yval) list"

type_synonym doc = "(string \<times> yval) list"

subsection \<open>config\_loader\_simple.py: \_merge\_lists, \_merge\_dicts\<close>

definition merge_lists :: "yval list \<Rightarrow> yval list \<Rightarrow> yval list" where
  "merge_lists base override = base @ override"

text \<open>
  \<^verbatim>\<open>result = base.copy()\<close>, then one step of the loop for each item of
  \<^verbatim>\<open>override.items()\<close>, in order. The first argument is \<open>result\<close>. The assignment
  \<^verbatim>\<open>result[key] = x\<close> is \<open>AList.update\<close>: an existing key keeps its position, a new
  key goes to the end.
\<close>

function merge_dicts :: "doc \<Rightarrow> doc \<Rightarrow> doc" where
  "merge_dicts result [] = result"
| "merge_dicts result ((key, val) # override) =
     merge_dicts
       (case map_of result key of
          Some cur \<Rightarrow>
            (case (cur, val) of
               (YDict b, YDict v) \<Rightarrow> AList.update key (YDict (merge_dicts b v)) result
             | (YList b, YList v) \<Rightarrow> AList.update key (YList (merge_lists b v)) result
             | _ \<Rightarrow> AList.update key val result)
        | None \<Rightarrow> AList.update key val result)
       override"
  by pat_completeness auto
termination
  by (relation "measure (\<lambda>(r, ov). size (YDict ov))") auto

subsection \<open>config\_loader\_simple.py: load\_config\<close>

text \<open>
  The exceptions the modelled code can raise. \<open>FileNotFoundError\<close> carries the name of
  the message \<^verbatim>\<open>Config not found: <name>\<close>. \<open>RecursionError\<close> is what the
  interpreter raises when the nesting of calls exceeds its limit. \<open>LibraryError\<close> is
  any exception of the HiYaPyCo library.
\<close>

datatype error =
    FileNotFoundError string
  | AttributeError
  | TypeError
  | RecursionError
  | LibraryError

text \<open>
  The configuration directory: \<open>st name\<close> is the parsed content of
  \<^verbatim>\<open>config-<name>.yaml\<close>, \<open>None\<close> when the file does not exist. Source files hold
  mappings. The cache is \<^verbatim>\<open>self._cache\<close>.
\<close>

type_synonym store = "string \<rightharpoonup> doc"
type_synonym cache = "string \<rightharpoonup> doc"

definition startswith :: "string \<Rightarrow> string \<Rightarrow> bool" where
  "startswith s p = (take (length p) s = p)"

definition endswith :: "string \<Rightarrow> string \<Rightarrow> bool" where
  "endswith s p = (length p \<le> length s \<and> drop (length s - length p) s = p)"

text \<open>Lines 76 to 79: the decoration of an \<^verbatim>\<open>extends\<close> value is stripped.\<close>

definition strip_name :: "string \<Rightarrow> string" where
  "strip_name base_name =
     (let b1 = (if startswith base_name ''config-'' then drop 7 base_name else base_name)
      in if endswith b1 ''.yaml'' then take (length b1 - 5) b1 else b1)"

text \<open>
  \<open>load_config st limit name c\<close>: the call \<^verbatim>\<open>load_config(name)\<close> with cache \<open>c\<close>, when
  the interpreter allows \<open>limit\<close> more nested calls of \<^verbatim>\<open>load_config\<close>. The result is
  the returned document or the raised exception, and the cache afterwards.
\<close>

fun load_config :: "store \<Rightarrow> nat \<Rightarrow> string \<Rightarrow> cache \<Rightarrow> (error + doc) \<times> cache" where
  "load_config st 0 config_name c = (Inl RecursionError, c)"
| "load_config st (Suc limit) config_name c =
     (case c config_name of
        Some cached \<Rightarrow> (Inr cached, c)
      | None \<Rightarrow>
          (case st config_name of
             None \<Rightarrow> (Inl (FileNotFoundError config_name), c)
           | Some config \<Rightarrow>
               (case map_of config ''extends'' of
                  None \<Rightarrow> (Inr config, c(config_name \<mapsto> config))
                | Some (YStr base_name) \<Rightarrow>
                    (case load_config st limit (strip_name base_name) c of
                       (Inl e, c') \<Rightarrow> (Inl e, c')
                     | (Inr base_config, c') \<Rightarrow>
                         (let merged = merge_dicts base_config (AList.delete ''extends'' config)
                          in (Inr merged, c'(config_name \<mapsto> merged))))
                | Some _ \<Rightarrow> (Inl AttributeError, c))))"

subsection \<open>config\_loader\_hiyapyco.py: load\_config\<close>

text \<open>
  \<open>hiyapyco_load\<close> is the library call \<^verbatim>\<open>hiyapyco.load(config_files, ...)\<close> as a function
  of the parsed contents of the files it is given, in order. It is a parameter: the
  library is not part of the repository.
\<close>

definition load_config_hiyapyco ::
  "(doc list \<Rightarrow> error + doc) \<Rightarrow> store \<Rightarrow> string \<Rightarrow> cache \<Rightarrow> (error + doc) \<times> cache" where
  "load_config_hiyapyco hiyapyco_load st config_name c =
     (case c config_name of
        Some cached \<Rightarrow> (Inr cached, c)
      | None \<Rightarrow>
          (case st config_name of
             None \<Rightarrow> (Inl (FileNotFoundError config_name), c)
           | Some temp_config \<Rightarrow>
               (case (case map_of temp_config ''extends'' of
                        None \<Rightarrow> Inr []
                      | Some (YStr base_name) \<Rightarrow>
                          (case st (strip_name base_name) of
                             Some base \<Rightarrow> Inr [base]
                           | None \<Rightarrow> Inr [])
                      | Some _ \<Rightarrow> Inl AttributeError) of
                  Inl e \<Rightarrow> (Inl e, c)
                | Inr base_files \<Rightarrow>
                    (let config_files = base_files @ [temp_config]
                     in case (if length config_files > 1 then hiyapyco_load config_files
                              else Inr temp_config) of
                          Inl e \<Rightarrow> (Inl e, c)
                        | Inr merged \<Rightarrow>
                            (let merged' = AList.delete ''extends'' merged
                             in (Inr merged', c(config_name \<mapsto> merged')))))))"

subsection \<open>builder.py: validate\_config\<close>

text \<open>
  What the validator writes to the log, one constructor for each message of the source.
  \<open>Config_is_valid\<close> is logged at level info, the others at level error.
\<close>

datatype message =
    Config_not_found string
  | Missing_required_field string
  | Node_missing_URL yval
  | Model_missing_required_fields yval
  | Error_validating error
  | Config_is_valid string

fun is_error :: "message \<Rightarrow> bool" where
  "is_error (Config_is_valid _) = False"
| "is_error _ = True"

text \<open>
  \<^verbatim>\<open>for x in v\<close>: a list gives its items, a dict its keys, a string its characters;
  any other value raises \<^verbatim>\<open>TypeError\<close>.
\<close>

fun py_iter :: "yval \<Rightarrow> error + yval list" where
  "py_iter (YList xs) = Inr xs"
| "py_iter (YDict kvs) = Inr (map (\<lambda>kv. YStr (fst kv)) kvs)"
| "py_iter (YStr s) = Inr (map (\<lambda>ch. YStr [ch]) s)"
| "py_iter _ = Inl TypeError"

fun is_substring :: "string \<Rightarrow> string \<Rightarrow> bool" where
  "is_substring p [] = (p = [])"
| "is_substring p (ch # s) = (take (length p) (ch # s) = p \<or> is_substring p s)"

text \<open>
  \<^verbatim>\<open>k in v\<close> for a string \<open>k\<close>: a key of a dict, an item of a list, a substring of a
  string; any other value raises \<^verbatim>\<open>TypeError\<close>.
\<close>

fun py_in :: "string \<Rightarrow> yval \<Rightarrow> error + bool" where
  "py_in k (YDict kvs) = Inr (map_of kvs k \<noteq> None)"
| "py_in k (YList xs) = Inr (YStr k \<in> set xs)"
| "py_in k (YStr s) = Inr (is_substring k s)"
| "py_in k _ = Inl TypeError"

text \<open>Lines 91 to 95. The result is the message logged before \<^verbatim>\<open>return False\<close>, if any.\<close>

fun check_required :: "string list \<Rightarrow> doc \<Rightarrow> message option" where
  "check_required [] config = None"
| "check_required (field # fields) config =
     (if map_of config field = None then Some (Missing_required_field field)
      else check_required fields config)"

text \<open>Lines 99 to 102.\<close>

fun check_nodes :: "yval list \<Rightarrow> message option" where
  "check_nodes [] = None"
| "check_nodes (node # nodes) =
     (case node of
        YDict kvs \<Rightarrow>
          (if map_of kvs ''url'' = None then Some (Node_missing_URL node)
           else check_nodes nodes)
      | _ \<Rightarrow> check_nodes nodes)"

text \<open>Lines 107 to 110: \<^verbatim>\<open>or\<close> evaluates its second operand only when the first is false.\<close>

fun check_model_list :: "yval list \<Rightarrow> error + message option" where
  "check_model_list [] = Inr None"
| "check_model_list (model # model_list) =
     (case py_in ''url'' model of
        Inl e \<Rightarrow> Inl e
      | Inr has_url \<Rightarrow>
          (if \<not> has_url then Inr (Some (Model_missing_required_fields model))
           else (case py_in ''name'' model of
                   Inl e \<Rightarrow> Inl e
                 | Inr has_name \<Rightarrow>
                     (if \<not> has_name then Inr (Some (Model_missing_required_fields model))
                      else check_model_list model_list))))"

text \<open>Lines 106 to 110.\<close>

fun check_models :: "(string \<times> yval) list \<Rightarrow> error + message option" where
  "check_models [] = Inr None"
| "check_models ((model_type, model_list) # items) =
     (case py_iter model_list of
        Inl e \<Rightarrow> Inl e
      | Inr ms \<Rightarrow>
          (case check_model_list ms of
             Inl e \<Rightarrow> Inl e
           | Inr (Some m) \<Rightarrow> Inr (Some m)
           | Inr None \<Rightarrow> check_models items))"

text \<open>
  Lines 90 to 110 on a loaded document: \<open>Inl e\<close> when an exception is raised,
  \<open>Inr (Some m)\<close> when \<open>m\<close> is logged and \<^verbatim>\<open>False\<close> returned, \<open>Inr None\<close> when every
  check passes.
\<close>

definition required_fields :: "string list" where
  "required_fields = [''name'', ''version'']"

definition check_document :: "doc \<Rightarrow> error + message option" where
  "check_document config =
     (case check_required required_fields config of
        Some m \<Rightarrow> Inr (Some m)
      | None \<Rightarrow>
          (case py_iter (case map_of config ''nodes'' of None \<Rightarrow> YList [] | Some v \<Rightarrow> v) of
             Inl e \<Rightarrow> Inl e
           | Inr nodes \<Rightarrow>
               (case check_nodes nodes of
                  Some m \<Rightarrow> Inr (Some m)
                | None \<Rightarrow>
                    (case (case map_of config ''models'' of None \<Rightarrow> YDict [] | Some v \<Rightarrow> v) of
                       YDict items \<Rightarrow> check_models items
                     | _ \<Rightarrow> Inl AttributeError))))"

text \<open>
  \<open>validate_config load st name c\<close>: the loader in use is the parameter \<open>load\<close>. The
  result is the returned boolean with the messages logged, and the cache afterwards.
  \<^verbatim>\<open>except Exception\<close> turns every exception into a logged error and \<^verbatim>\<open>False\<close>.
\<close>

definition validate_config ::
  "(string \<Rightarrow> cache \<Rightarrow> (error + doc) \<times> cache) \<Rightarrow> store \<Rightarrow> string \<Rightarrow> cache
     \<Rightarrow> (bool \<times> message list) \<times> cache" where
  "validate_config load st config_name c =
     (case st config_name of
        None \<Rightarrow> ((False, [Config_not_found config_name]), c)
      | Some _ \<Rightarrow>
          (case load config_name c of
             (Inl e, c') \<Rightarrow> ((False, [Error_validating e]), c')
           | (Inr config, c') \<Rightarrow>
               (case check_document config of
                  Inl e \<Rightarrow> ((False, [Error_validating e]), c')
                | Inr (Some m) \<Rightarrow> ((False, [m]), c')
                | Inr None \<Rightarrow> ((True, [Config_is_valid config_name]), c'))))"

subsection \<open>builder.py: create\_config\<close>

definition config_data :: "string \<Rightarrow> string \<Rightarrow> doc" where
  "config_data name base_image =
     [(''name'', YStr name),
      (''version'', YStr ''1.0.0''),
      (''base_image'', YStr base_image),
      (''description'', YStr (''ComfyUI configuration: '' @ name)),
      (''extends'', YStr ''config-base.yaml''),
      (''nodes'', YList [YStr ''!include base'']),
      (''requirements'', YList [YStr ''!include base'']),
      (''workflows'', YList []),
      (''models'', YDict [(''checkpoints'', YList []), (''loras'', YList []),
                          (''vae'', YList []), (''controlnet'', YList []),
                          (''upscale_models'', YList [])]),
      (''env_vars'', YDict [(''CONFIG_NAME'', YStr name), (''COMFYUI_ARGS'', YStr '''')])]"

text \<open>The file is written only when no configuration of that name exists.\<close>

definition create_config :: "store \<Rightarrow> string \<Rightarrow> string \<Rightarrow> bool \<times> store" where
  "create_config st name base_image =
     (if st name \<noteq> None then (False, st)
      else (True, st(name \<mapsto> config_data name base_image)))"

subsection \<open>variant\_builder.py: \_process\_requirements\<close>

text \<open>\<^verbatim>\<open>sep.join(xs)\<close>.\<close>

fun join :: "string \<Rightarrow> string list \<Rightarrow> string" where
  "join sep [] = []"
| "join sep [x] = x"
| "join sep (x # y # ys) = x @ sep @ join sep (y # ys)"

definition newline :: char where
  "newline = CHR 0x0A"

text \<open>
  \<^verbatim>\<open>set(requirements)\<close> adds the entries in the order of the list, and an entry that
  is already in the set is not added again. \<open>py_set\<close> gives the entries of the set in
  the order of their insertion.
\<close>

definition set_add :: "string \<Rightarrow> string list \<Rightarrow> string list" where
  "set_add x s = (if x \<in> set s then s else s @ [x])"

definition py_set :: "string list \<Rightarrow> string list" where
  "py_set xs = fold set_add xs []"

text \<open>
  \<^verbatim>\<open>list(s)\<close> iterates over the hash table of the set. \<open>slot s x\<close> is the position
  the table gives the entry \<open>x\<close> when the entries \<open>s\<close> were inserted in this order: a
  parameter, decided by the interpreter (the hash seed, the size of the table, the
  collisions). Iteration goes by position, and every order of the entries is the
  iteration order of some \<open>slot\<close>.
\<close>

definition py_list :: "(string list \<Rightarrow> string \<Rightarrow> nat) \<Rightarrow> string list \<Rightarrow> string list" where
  "py_list slot s = sort_key (slot s) s"

text \<open>
  The result is the returned boolean and the text written to \<^verbatim>\<open>requirements.txt\<close>,
  \<open>None\<close> when the file is not written.
\<close>

definition process_requirements ::
  "(string list \<Rightarrow> string \<Rightarrow> nat) \<Rightarrow> string list \<Rightarrow> bool \<times> string option" where
  "process_requirements slot requirements =
     (if requirements = [] then (True, None)
      else (let unique_requirements = py_list slot (py_set requirements)
            in (True, Some (join [newline] unique_requirements))))"

text \<open>The lines of a text, as \<^verbatim>\<open>str.split\<close> at the newline character gives them.\<close>

fun lines_of :: "string \<Rightarrow> string list" where
  "lines_of [] = [[]]"
| "lines_of (ch # s) =
     (if ch = newline then [] # lines_of s
      else (case lines_of s of l # ls \<Rightarrow> (ch # l) # ls | [] \<Rightarrow> [[ch]]))"

section \<open>Auxiliary definitions\<close>

text \<open>The value one step of the loop of \<open>merge_dicts\<close> stores under the key.\<close>

definition merge_entry :: "yval option \<Rightarrow> yval \<Rightarrow> yval" where
  "merge_entry cur val =
     (case cur of
        Some c \<Rightarrow>
          (case (c, val) of
             (YDict b, YDict v) \<Rightarrow> YDict (merge_dicts b v)
           | (YList b, YList v) \<Rightarrow> YList (merge_lists b v)
           | _ \<Rightarrow> val)
      | None \<Rightarrow> val)"

text \<open>The ancestor and the descendant of the scenarios of the specification.\<close>

definition ex_base :: doc where
  "ex_base = [(''name'', YStr ''base''), (''version'', YStr ''1.0''),
              (''nodes'', YList [YStr ''repoA'']),
              (''models'', YDict [(''checkpoints'', YList [YDict [(''url'', YStr ''u0''), (''name'', YStr ''m0'')]]),
                                  (''loras'', YList [YDict [(''url'', YStr ''u2''), (''name'', YStr ''m2'')]])]),
              (''env_vars'', YList [])]"

definition ex_child :: doc where
  "ex_child = [(''name'', YStr ''child''),
               (''nodes'', YList [YStr ''repoB'']),
               (''models'', YDict [(''checkpoints'', YList [YDict [(''url'', YStr ''u1''), (''name'', YStr ''m1'')]])]),
               (''env_vars'', YDict [(''A'', YStr ''1'')]),
               (''workflows'', YList [YStr ''w.json''])]"

text \<open>
  What holds of every cache the loaders build: a cached name has a source file, and a
  cached document has no key \<^verbatim>\<open>extends\<close>.
\<close>

definition cache_inv :: "store \<Rightarrow> cache \<Rightarrow> bool" where
  "cache_inv st c = (\<forall>n d. c n = Some d \<longrightarrow> st n \<noteq> None \<and> map_of d ''extends'' = None)"


text \<open>
  A configuration directory for the examples: \<open>child\<close> extends \<open>base\<close>, \<open>orphan\<close>
  extends a name without a source file, \<open>ping\<close> and \<open>pong\<close> extend each other.
\<close>

definition ex_source :: doc where
  "ex_source = (''extends'', YStr ''config-base.yaml'') # ex_child"

definition ex_orphan :: doc where
  "ex_orphan = [(''name'', YStr ''orphan''), (''version'', YStr ''1.0''),
                (''extends'', YStr ''ghost'')]"

definition ex_ping :: doc where
  "ex_ping = [(''name'', YStr ''ping''), (''extends'', YStr ''pong'')]"

definition ex_pong :: doc where
  "ex_pong = [(''name'', YStr ''pong''), (''extends'', YStr ''config-ping.yaml'')]"

definition ex_store :: store where
  "ex_store = [''base'' \<mapsto> ex_base, ''child'' \<mapsto> ex_source, ''orphan'' \<mapsto> ex_orphan,
               ''ping'' \<mapsto> ex_ping, ''pong'' \<mapsto> ex_pong]"

definition ex_hiyapyco_load :: "doc list \<Rightarrow> error + doc" where
  "ex_hiyapyco_load files =
     (case files of [base, config] \<Rightarrow> Inr (merge_dicts base config) | _ \<Rightarrow> Inl LibraryError)"

text \<open>
  The validity of a document in the words of the specification: \<open>name\<close> and
  \<open>version\<close> are present, every entry under \<open>nodes\<close> that is a mapping carries a
  \<open>url\<close>, and every entry under every category of \<open>models\<close> carries \<open>url\<close> and
  \<open>name\<close>. The entries of a value are its items when it is a sequence.
\<close>

fun is_mapping :: "yval \<Rightarrow> bool" where
  "is_mapping (YDict _) = True"
| "is_mapping _ = False"

fun is_sequence :: "yval \<Rightarrow> bool" where
  "is_sequence (YList _) = True"
| "is_sequence _ = False"

fun entries :: "yval \<Rightarrow> yval list" where
  "entries (YList xs) = xs"
| "entries _ = []"

fun carries :: "string \<Rightarrow> yval \<Rightarrow> bool" where
  "carries k (YDict kvs) = (map_of kvs k \<noteq> None)"
| "carries k _ = False"

definition nodes_of :: "doc \<Rightarrow> yval list" where
  "nodes_of config = (case map_of config ''nodes'' of Some v \<Rightarrow> entries v | None \<Rightarrow> [])"

definition categories_of :: "doc \<Rightarrow> (string \<times> yval) list" where
  "categories_of config =
     (case map_of config ''models'' of Some (YDict cats) \<Rightarrow> cats | _ \<Rightarrow> [])"

definition spec_valid :: "doc \<Rightarrow> bool" where
  "spec_valid config =
     (map_of config ''name'' \<noteq> None \<and> map_of config ''version'' \<noteq> None
      \<and> list_all (\<lambda>node. is_mapping node \<longrightarrow> carries ''url'' node) (nodes_of config)
      \<and> list_all (\<lambda>cat. list_all (\<lambda>model. carries ''url'' model \<and> carries ''name'' model)
                           (entries (snd cat)))
                 (categories_of config))"

text \<open>
  The shapes of the data model: \<open>nodes\<close>, when present, is a sequence; \<open>models\<close>, when
  present, maps every category to a sequence of mappings.
\<close>

definition follows_data_model :: "doc \<Rightarrow> bool" where
  "follows_data_model config =
     ((case map_of config ''nodes'' of None \<Rightarrow> True | Some v \<Rightarrow> is_sequence v)
      \<and> (case map_of config ''models'' of
            None \<Rightarrow> True
          | Some (YDict cats) \<Rightarrow>
              list_all (\<lambda>cat. is_sequence (snd cat) \<and> list_all is_mapping (entries (snd cat))) cats
          | Some _ \<Rightarrow> False))"

text \<open>
  Documents for the examples of validation: \<open>bad\<close> lacks \<open>version\<close> and has a model
  without \<open>url\<close>, \<open>nameless\<close> lacks \<open>name\<close> and \<open>version\<close>, \<open>nullnodes\<close> has the key
  \<open>nodes\<close> with an empty value, \<open>unversioned\<close> lacks only \<open>version\<close>.
\<close>

definition ex_bad :: doc where
  "ex_bad = [(''name'', YStr ''bad''),
             (''models'', YDict [(''checkpoints'', YList [YDict [(''name'', YStr ''m1'')]])])]"

definition ex_nameless :: doc where
  "ex_nameless = [(''nodes'', YList [YStr ''repoA''])]"

definition ex_nullnodes :: doc where
  "ex_nullnodes = [(''name'', YStr ''nullnodes''), (''version'', YStr ''1.0''), (''nodes'', YNull)]"

definition ex_unversioned :: doc where
  "ex_unversioned = [(''name'', YStr ''unversioned''), (''nodes'', YList [YStr ''repoA''])]"

definition ex_vstore :: store where
  "ex_vstore = [''bad'' \<mapsto> ex_bad, ''nameless'' \<mapsto> ex_nameless, ''nullnodes'' \<mapsto> ex_nullnodes,
                ''unversioned'' \<mapsto> ex_unversioned, ''base'' \<mapsto> ex_base]"

text \<open>The example directory after \<^verbatim>\<open>create_config\<close> has written a new configuration.\<close>

definition ex_created :: store where
  "ex_created = snd (create_config ex_store ''mine'' ''effekt/runpod-comfyui:base'')"

text \<open>
  Two hash tables for the examples: \<open>ex_slot\<close> puts the entry inserted first behind the
  others, \<open>ex_slot_kept\<close> keeps the order of insertion.
\<close>

definition ex_slot :: "string list \<Rightarrow> string \<Rightarrow> nat" where
  "ex_slot s x = (if x = hd s then 1 else 0)"

definition ex_slot_kept :: "string list \<Rightarrow> string \<Rightarrow> nat" where
  "ex_slot_kept s x = 0"

text \<open>
  What the loops of the validator accept: a node that is no mapping or has a \<open>url\<close>; a
  model in which \<^verbatim>\<open>'url' in model\<close> and \<^verbatim>\<open>'name' in model\<close> both hold; a category
  that can be iterated and holds only such models. A model offends when one of the two
  tests is evaluated and fails.
\<close>

definition node_passes :: "yval \<Rightarrow> bool" where
  "node_passes node = (case node of YDict kvs \<Rightarrow> map_of kvs ''url'' \<noteq> None | _ \<Rightarrow> True)"

definition model_passes :: "yval \<Rightarrow> bool" where
  "model_passes model = (py_in ''url'' model = Inr True \<and> py_in ''name'' model = Inr True)"

definition model_offends :: "yval \<Rightarrow> bool" where
  "model_offends model =
     (py_in ''url'' model = Inr False
      \<or> (py_in ''url'' model = Inr True \<and> py_in ''name'' model = Inr False))"

definition category_passes :: "string \<times> yval \<Rightarrow> bool" where
  "category_passes cat =
     (case py_iter (snd cat) of Inl e \<Rightarrow> False | Inr ms \<Rightarrow> list_all model_passes ms)"

text \<open>
  Documents with one offence after another: \<open>badnode\<close> has two nodes without \<open>url\<close>
  and a model without \<open>url\<close>; \<open>badmodel\<close> has, in its second category, a model without
  \<open>name\<close> and then a model without \<open>url\<close>.
\<close>

definition ex_badnode :: doc where
  "ex_badnode = [(''name'', YStr ''badnode''), (''version'', YStr ''1.0''),
                 (''nodes'', YList [YStr ''repoA'', YDict [(''branch'', YStr ''main'')],
                                    YDict [(''commit'', YStr ''abc'')]]),
                 (''models'', YDict [(''checkpoints'', YList [YDict [(''name'', YStr ''m1'')]])])]"

definition ex_badmodel :: doc where
  "ex_badmodel = [(''name'', YStr ''badmodel''), (''version'', YStr ''1.0''),
                  (''nodes'', YList [YStr ''repoA'']),
                  (''models'', YDict
                     [(''checkpoints'', YList [YDict [(''url'', YStr ''u0''), (''name'', YStr ''m0'')]]),
                      (''loras'', YList [YDict [(''url'', YStr ''u1''), (''name'', YStr ''m1'')],
                                         YDict [(''url'', YStr ''u2'')],
                                         YDict [(''name'', YStr ''m3'')]])])]"

definition ex_ostore :: store where
  "ex_ostore = [''badnode'' \<mapsto> ex_badnode, ''badmodel'' \<mapsto> ex_badmodel]"

section \<open>Properties of the merge\<close>

lemma merge_dicts_step:
  "merge_dicts result ((key, val) # override) =
     merge_dicts (AList.update key (merge_entry (map_of result key) val) result) override"
  by (simp add: merge_entry_def split: option.splits yval.splits)

lemma map_of_merge_dicts:
  "distinct (map fst ov) \<Longrightarrow>
   map_of (merge_dicts r ov) k =
     (case map_of ov k of None \<Rightarrow> map_of r k | Some v \<Rightarrow> Some (merge_entry (map_of r k) v))"
proof (induction ov arbitrary: r)
  case Nil
  then show ?case by simp
next
  case (Cons a ov)
  obtain key val where a: "a = (key, val)" by (cases a)
  from Cons.prems a have d: "distinct (map fst ov)" and nk: "key \<notin> fst ` set ov" by auto
  from nk have mk: "map_of ov key = None" by (simp add: map_of_eq_None_iff)
  show ?case
    unfolding a merge_dicts_step
    using Cons.IH[OF d] mk
    by (auto simp: update_conv split: option.splits)
qed

lemma keys_merge_dicts: "fst ` set (merge_dicts r ov) = fst ` set r \<union> fst ` set ov"
proof (induction ov arbitrary: r)
  case Nil
  then show ?case by simp
next
  case (Cons a ov)
  obtain key val where a: "a = (key, val)" by (cases a)
  show ?case unfolding a merge_dicts_step by (simp add: Cons.IH dom_update)
qed

lemma map_of_merge_dicts_None:
  "map_of (merge_dicts r ov) k = None \<longleftrightarrow> map_of r k = None \<and> map_of ov k = None"
  using keys_merge_dicts[of r ov] by (auto simp: map_of_eq_None_iff)

lemma map_of_delete_self: "map_of (AList.delete k al) k = None"
  by (simp add: delete_conv)

section \<open>Properties of the simple loader\<close>

lemma load_config_cached:
  "c n = Some d \<Longrightarrow> load_config st (Suc limit) n c = (Inr d, c)"
  by simp

lemma load_config_missing:
  "c n = None \<Longrightarrow> st n = None \<Longrightarrow> load_config st (Suc limit) n c = (Inl (FileNotFoundError n), c)"
  by simp

lemma load_config_plain:
  "c n = None \<Longrightarrow> st n = Some config \<Longrightarrow> map_of config ''extends'' = None
   \<Longrightarrow> load_config st (Suc limit) n c = (Inr config, c(n \<mapsto> config))"
  by simp

lemma load_config_extends:
  "c n = None \<Longrightarrow> st n = Some config \<Longrightarrow> map_of config ''extends'' = Some (YStr s)
   \<Longrightarrow> load_config st (Suc limit) n c =
       (case load_config st limit (strip_name s) c of
          (Inl e, c') \<Rightarrow> (Inl e, c')
        | (Inr base_config, c') \<Rightarrow>
            (Inr (merge_dicts base_config (AList.delete ''extends'' config)),
             c'(n \<mapsto> merge_dicts base_config (AList.delete ''extends'' config))))"
  by (simp add: Let_def split: prod.splits sum.splits)

lemma load_config_badext:
  "c n = None \<Longrightarrow> st n = Some config \<Longrightarrow> map_of config ''extends'' = Some e
   \<Longrightarrow> \<forall>s. e \<noteq> YStr s \<Longrightarrow> load_config st (Suc limit) n c = (Inl AttributeError, c)"
  by (cases e) simp_all

lemma load_config_cases [case_names cached missing plain badext extends]:
  obtains d where "c n = Some d"
  | "c n = None" "st n = None"
  | config where "c n = None" "st n = Some config" "map_of config ''extends'' = None"
  | config e where "c n = None" "st n = Some config" "map_of config ''extends'' = Some e"
      "\<forall>s. e \<noteq> YStr s"
  | config s where "c n = None" "st n = Some config" "map_of config ''extends'' = Some (YStr s)"
proof (cases "c n")
  case None
  note cn = None
  show ?thesis
  proof (cases "st n")
    case None
    with cn that show ?thesis by blast
  next
    case (Some config)
    note sn = Some
    show ?thesis
    proof (cases "map_of config ''extends''")
      case None
      with cn sn that show ?thesis by blast
    next
      case (Some e)
      show ?thesis
      proof (cases "\<exists>s. e = YStr s")
        case True
        with cn sn Some that show ?thesis by blast
      next
        case False
        with cn sn Some that(4) show ?thesis by blast
      qed
    qed
  qed
next
  case (Some d)
  with that show ?thesis by blast
qed

declare load_config.simps(2) [simp del]

lemma cache_inv_update:
  "cache_inv st c \<Longrightarrow> st m = Some x \<Longrightarrow> map_of d ''extends'' = None
   \<Longrightarrow> cache_inv st (c(m \<mapsto> d))"
  by (simp add: cache_inv_def)

lemma cache_inv_lookup:
  "cache_inv st c \<Longrightarrow> c n = Some d \<Longrightarrow> st n \<noteq> None \<and> map_of d ''extends'' = None"
  by (simp add: cache_inv_def)

lemma load_config_keeps:
  "c n = Some d \<Longrightarrow> snd (load_config st limit m c) n = Some d"
proof (induction limit arbitrary: m)
  case 0
  then show ?case by simp
next
  case (Suc limit)
  show ?case
  proof (cases rule: load_config_cases[where c=c and n=m and st=st])
    case (cached d')
    with Suc.prems show ?thesis by (simp add: load_config_cached)
  next
    case missing
    with Suc.prems show ?thesis by (simp add: load_config_missing)
  next
    case (plain config)
    with Suc.prems show ?thesis by (auto simp: load_config_plain)
  next
    case (badext config e)
    with Suc.prems show ?thesis by (simp add: load_config_badext)
  next
    case (extends config s)
    from Suc.IH[OF Suc.prems, of "strip_name s"] extends Suc.prems show ?thesis
      by (auto simp: load_config_extends split: prod.splits sum.splits)
  qed
qed

lemma load_config_error:
  "fst (load_config st limit m c) = Inl e \<Longrightarrow> snd (load_config st limit m c) = c"
proof (induction limit arbitrary: m e)
  case 0
  then show ?case by simp
next
  case (Suc limit)
  show ?case
  proof (cases rule: load_config_cases[where c=c and n=m and st=st])
    case (cached d')
    then show ?thesis by (simp add: load_config_cached)
  next
    case missing
    then show ?thesis by (simp add: load_config_missing)
  next
    case (plain config)
    with Suc.prems show ?thesis by (simp add: load_config_plain)
  next
    case (badext config e)
    then show ?thesis by (simp add: load_config_badext)
  next
    case (extends config s)
    obtain r c1 where rec: "load_config st limit (strip_name s) c = (r, c1)"
      by (cases "load_config st limit (strip_name s) c")
    show ?thesis
    proof (cases r)
      case (Inl err)
      with Suc.IH[of "strip_name s" err] rec extends show ?thesis
        by (simp add: load_config_extends)
    next
      case (Inr b)
      with rec extends Suc.prems show ?thesis by (simp add: load_config_extends)
    qed
  qed
qed

lemma load_config_stores:
  "load_config st limit m c = (Inr d, c') \<Longrightarrow> c' m = Some d"
proof (cases limit)
  case 0
  assume "load_config st limit m c = (Inr d, c')"
  with 0 show ?thesis by simp
next
  case (Suc l)
  assume a: "load_config st limit m c = (Inr d, c')"
  show ?thesis
  proof (cases rule: load_config_cases[where c=c and n=m and st=st])
    case (cached d')
    with a Suc show ?thesis by (simp add: load_config_cached)
  next
    case missing
    with a Suc show ?thesis by (simp add: load_config_missing)
  next
    case (plain config)
    with a Suc show ?thesis by (auto simp: load_config_plain)
  next
    case (badext config e)
    with a Suc show ?thesis by (simp add: load_config_badext)
  next
    case (extends config s)
    with a Suc show ?thesis
      by (auto simp: load_config_extends split: prod.splits sum.splits)
  qed
qed

lemma load_config_inv:
  "cache_inv st c \<Longrightarrow> load_config st limit m c = (Inr d, c')
   \<Longrightarrow> map_of d ''extends'' = None \<and> cache_inv st c'"
proof (induction limit arbitrary: m d c')
  case 0
  then show ?case by simp
next
  case (Suc limit)
  show ?case
  proof (cases rule: load_config_cases[where c=c and n=m and st=st])
    case (cached d')
    with Suc.prems cache_inv_lookup[of st c m d'] show ?thesis
      by (auto simp: load_config_cached)
  next
    case missing
    with Suc.prems show ?thesis by (simp add: load_config_missing)
  next
    case (plain config)
    with Suc.prems cache_inv_update[of st c m config config] show ?thesis
      by (auto simp: load_config_plain)
  next
    case (badext config e)
    with Suc.prems show ?thesis by (simp add: load_config_badext)
  next
    case (extends config s)
    obtain r c1 where rec: "load_config st limit (strip_name s) c = (r, c1)"
      by (cases "load_config st limit (strip_name s) c")
    show ?thesis
    proof (cases r)
      case (Inl err)
      with rec extends Suc.prems show ?thesis by (simp add: load_config_extends)
    next
      case (Inr base_config)
      from Suc.IH[OF Suc.prems(1) rec[unfolded Inr]]
      have b: "map_of base_config ''extends'' = None" and i1: "cache_inv st c1" by auto
      from extends rec Inr Suc.prems(2)
      have d: "d = merge_dicts base_config (AList.delete ''extends'' config)"
        and c': "c' = c1(m \<mapsto> d)" by (auto simp: load_config_extends)
      from b have dn: "map_of d ''extends'' = None"
        unfolding d by (simp add: map_of_merge_dicts_None map_of_delete_self)
      from cache_inv_update[OF i1 extends(2) dn] dn show ?thesis unfolding c' by blast
    qed
  qed
qed

section \<open>Properties of the HiYaPyCo loader\<close>

lemma hiyapyco_cached:
  "c n = Some d \<Longrightarrow> load_config_hiyapyco h st n c = (Inr d, c)"
  by (simp add: load_config_hiyapyco_def)

lemma hiyapyco_missing:
  "c n = None \<Longrightarrow> st n = None
   \<Longrightarrow> load_config_hiyapyco h st n c = (Inl (FileNotFoundError n), c)"
  by (simp add: load_config_hiyapyco_def)

lemma hiyapyco_plain:
  "c n = None \<Longrightarrow> st n = Some config \<Longrightarrow> map_of config ''extends'' = None
   \<Longrightarrow> load_config_hiyapyco h st n c =
       (Inr (AList.delete ''extends'' config), c(n \<mapsto> AList.delete ''extends'' config))"
  by (simp add: load_config_hiyapyco_def Let_def)

lemma hiyapyco_badext:
  "c n = None \<Longrightarrow> st n = Some config \<Longrightarrow> map_of config ''extends'' = Some e
   \<Longrightarrow> \<forall>s. e \<noteq> YStr s \<Longrightarrow> load_config_hiyapyco h st n c = (Inl AttributeError, c)"
  by (cases e) (simp_all add: load_config_hiyapyco_def)

lemma hiyapyco_no_base:
  "c n = None \<Longrightarrow> st n = Some config \<Longrightarrow> map_of config ''extends'' = Some (YStr s)
   \<Longrightarrow> st (strip_name s) = None
   \<Longrightarrow> load_config_hiyapyco h st n c =
       (Inr (AList.delete ''extends'' config), c(n \<mapsto> AList.delete ''extends'' config))"
  by (simp add: load_config_hiyapyco_def Let_def)

lemma hiyapyco_base:
  "c n = None \<Longrightarrow> st n = Some config \<Longrightarrow> map_of config ''extends'' = Some (YStr s)
   \<Longrightarrow> st (strip_name s) = Some base
   \<Longrightarrow> load_config_hiyapyco h st n c =
       (case h [base, config] of
          Inl e \<Rightarrow> (Inl e, c)
        | Inr merged \<Rightarrow>
            (Inr (AList.delete ''extends'' merged), c(n \<mapsto> AList.delete ''extends'' merged)))"
  by (simp add: load_config_hiyapyco_def Let_def split: sum.splits)

lemma hiyapyco_result:
  assumes "load_config_hiyapyco h st n c = (Inr d, c')"
  shows "(c n = Some d \<and> c' = c)
       \<or> (c n = None \<and> st n \<noteq> None \<and> (\<exists>x. d = AList.delete ''extends'' x) \<and> c' = c(n \<mapsto> d))"
proof (cases rule: load_config_cases[where c=c and n=n and st=st])
  case (cached d')
  with assms show ?thesis by (simp add: hiyapyco_cached)
next
  case missing
  with assms show ?thesis by (simp add: hiyapyco_missing)
next
  case (plain config)
  with assms show ?thesis by (auto simp: hiyapyco_plain)
next
  case (badext config e)
  with assms show ?thesis by (simp add: hiyapyco_badext)
next
  case (extends config s)
  show ?thesis
  proof (cases "st (strip_name s)")
    case None
    with extends assms show ?thesis by (auto simp: hiyapyco_no_base)
  next
    case (Some base)
    with extends assms show ?thesis
      by (auto simp: hiyapyco_base split: sum.splits)
  qed
qed

lemma hiyapyco_error:
  assumes "fst (load_config_hiyapyco h st n c) = Inl e"
  shows "snd (load_config_hiyapyco h st n c) = c"
proof (cases rule: load_config_cases[where c=c and n=n and st=st])
  case (cached d')
  with assms show ?thesis by (simp add: hiyapyco_cached)
next
  case missing
  with assms show ?thesis by (simp add: hiyapyco_missing)
next
  case (plain config)
  with assms show ?thesis by (auto simp: hiyapyco_plain)
next
  case (badext config e)
  with assms show ?thesis by (simp add: hiyapyco_badext)
next
  case (extends config s)
  show ?thesis
  proof (cases "st (strip_name s)")
    case None
    with extends assms show ?thesis by (auto simp: hiyapyco_no_base)
  next
    case (Some base)
    with extends assms show ?thesis
      by (auto simp: hiyapyco_base split: sum.splits)
  qed
qed

lemma hiyapyco_keeps:
  "c n = Some d \<Longrightarrow> snd (load_config_hiyapyco h st m c) n = Some d"
proof (cases "fst (load_config_hiyapyco h st m c)")
  case (Inl e)
  assume "c n = Some d"
  with hiyapyco_error[OF Inl] show ?thesis by simp
next
  case (Inr x)
  assume cn: "c n = Some d"
  obtain r c1 where rc: "load_config_hiyapyco h st m c = (r, c1)"
    by (cases "load_config_hiyapyco h st m c")
  with Inr have "load_config_hiyapyco h st m c = (Inr x, c1)" by simp
  from hiyapyco_result[OF this] cn rc show ?thesis by auto
qed

lemma hiyapyco_inv:
  assumes "cache_inv st c" and "load_config_hiyapyco h st n c = (Inr d, c')"
  shows "map_of d ''extends'' = None \<and> c' n = Some d \<and> cache_inv st c'"
proof -
  from hiyapyco_result[OF assms(2)] show ?thesis
  proof
    assume "c n = Some d \<and> c' = c"
    with assms(1) cache_inv_lookup[of st c n d] show ?thesis by simp
  next
    assume a: "c n = None \<and> st n \<noteq> None \<and> (\<exists>x. d = AList.delete ''extends'' x) \<and> c' = c(n \<mapsto> d)"
    then obtain y where y: "st n = Some y" by auto
    from a have dn: "map_of d ''extends'' = None" by (auto simp: map_of_delete_self)
    from cache_inv_update[OF assms(1) y dn] dn a show ?thesis by simp
  qed
qed

section \<open>The loaders on a chain and on a cycle\<close>



section \<open>The example directory\<close>

lemma ex_store_simps:
  "ex_store ''base'' = Some ex_base"
  "ex_store ''child'' = Some ex_source"
  "ex_store ''orphan'' = Some ex_orphan"
  "ex_store ''ping'' = Some ex_ping"
  "ex_store ''pong'' = Some ex_pong"
  "ex_store ''ghost'' = None"
  by (simp_all add: ex_store_def)

lemma ex_strip_simps:
  "strip_name ''config-base.yaml'' = ''base''"
  "strip_name ''ghost'' = ''ghost''"
  "strip_name ''pong'' = ''pong''"
  "strip_name ''config-ping.yaml'' = ''ping''"
  by (simp_all add: strip_name_def startswith_def endswith_def)

lemma ex_extends_simps:
  "map_of ex_base ''extends'' = None"
  "map_of ex_child ''extends'' = None"
  "map_of ex_source ''extends'' = Some (YStr ''config-base.yaml'')"
  "map_of ex_orphan ''extends'' = Some (YStr ''ghost'')"
  "map_of ex_ping ''extends'' = Some (YStr ''pong'')"
  "map_of ex_pong ''extends'' = Some (YStr ''config-ping.yaml'')"
  by (simp_all add: ex_base_def ex_child_def ex_source_def ex_orphan_def ex_ping_def ex_pong_def)

lemma ex_delete_source: "AList.delete ''extends'' ex_source = ex_child"
  by (simp add: ex_source_def ex_child_def)

lemma ex_delete_orphan:
  "AList.delete ''extends'' ex_orphan = [(''name'', YStr ''orphan''), (''version'', YStr ''1.0'')]"
  by (simp add: ex_orphan_def)

lemma ex_load_base:
  "load_config ex_store (Suc limit) ''base'' Map.empty = (Inr ex_base, [''base'' \<mapsto> ex_base])"
  by (simp add: load_config_plain ex_store_simps ex_extends_simps)

lemma ex_load_child:
  "load_config ex_store (Suc (Suc limit)) ''child'' Map.empty =
     (Inr (merge_dicts ex_base ex_child),
      [''base'' \<mapsto> ex_base, ''child'' \<mapsto> merge_dicts ex_base ex_child])"
  by (simp add: load_config_extends[where config=ex_source and s="''config-base.yaml''"]
        ex_store_simps ex_extends_simps ex_strip_simps ex_load_base ex_delete_source)

lemma ex_hiyapyco_child:
  "load_config_hiyapyco ex_hiyapyco_load ex_store ''child'' Map.empty =
     (Inr (AList.delete ''extends'' (merge_dicts ex_base ex_source)),
      [''child'' \<mapsto> AList.delete ''extends'' (merge_dicts ex_base ex_source)])"
  by (simp add: hiyapyco_base[where config=ex_source and s="''config-base.yaml''" and base=ex_base]
        ex_store_simps ex_extends_simps ex_strip_simps ex_hiyapyco_load_def)

lemma ex_cache_inv: "cache_inv ex_store Map.empty"
  by (simp add: cache_inv_def)



section \<open>Properties of the include marker\<close>

lemma merge_dicts_list_entry:
  assumes "distinct (map fst override)" and "map_of override k = Some (YList xs)"
  shows "map_of (merge_dicts base override) k =
           Some (YList ((case map_of base k of Some (YList ys) \<Rightarrow> ys | _ \<Rightarrow> []) @ xs))"
  using map_of_merge_dicts[OF assms(1), of base k] assms(2)
  by (simp add: merge_entry_def merge_lists_def split: option.splits yval.splits)

lemma config_data_marker:
  "map_of (config_data name base_image) ''nodes'' = Some (YList [YStr ''!include base''])"
  "map_of (config_data name base_image) ''requirements'' = Some (YList [YStr ''!include base''])"
  "map_of (config_data name base_image) ''extends'' = Some (YStr ''config-base.yaml'')"
  by (simp_all add: config_data_def)

lemma config_data_distinct: "distinct (map fst (config_data name base_image))"
  by (simp add: config_data_def)

lemma load_config_list_entry:
  assumes "c n = None" and "st n = Some config" and "distinct (map fst config)"
    and "k \<noteq> ''extends''" and "map_of config k = Some (YList xs)"
    and "load_config st limit n c = (Inr d, c')"
  shows "\<exists>pre. map_of d k = Some (YList (pre @ xs))
              \<and> (map_of config ''extends'' = None \<longrightarrow> pre = [])
              \<and> (\<forall>s base c1. map_of config ''extends'' = Some (YStr s)
                    \<and> load_config st (limit - 1) (strip_name s) c = (Inr base, c1)
                    \<longrightarrow> pre = (case map_of base k of Some (YList ys) \<Rightarrow> ys | _ \<Rightarrow> []))"
proof -
  obtain l where l: "limit = Suc l"
    using assms(6) by (cases limit) auto
  have "\<exists>pre. map_of d k = Some (YList (pre @ xs))
              \<and> (map_of config ''extends'' = None \<longrightarrow> pre = [])
              \<and> (\<forall>s base c1. map_of config ''extends'' = Some (YStr s)
                    \<and> load_config st l (strip_name s) c = (Inr base, c1)
                    \<longrightarrow> pre = (case map_of base k of Some (YList ys) \<Rightarrow> ys | _ \<Rightarrow> []))"
  proof (cases rule: load_config_cases[where c=c and n=n and st=st])
    case (cached d')
    with assms(1) show ?thesis by simp
  next
    case missing
    with assms(2) show ?thesis by simp
  next
    case (plain cfg)
    with assms(2) have e: "map_of config ''extends'' = None" by simp
    with assms(1,2,6) l have "d = config" by (simp add: load_config_plain)
    with assms(5) e show ?thesis by simp
  next
    case (badext cfg e)
    with assms(6) l show ?thesis by (simp add: load_config_badext)
  next
    case (extends cfg s)
    with assms(2) have e: "map_of config ''extends'' = Some (YStr s)" by simp
    obtain r c1 where rec: "load_config st l (strip_name s) c = (r, c1)"
      by (cases "load_config st l (strip_name s) c")
    show ?thesis
    proof (cases r)
      case (Inl err)
      with rec assms(1,2,6) e l show ?thesis by (simp add: load_config_extends)
    next
      case (Inr base)
      with rec assms(1,2,6) e l
      have d: "d = merge_dicts base (AList.delete ''extends'' config)"
        by (simp add: load_config_extends)
      have dd: "distinct (map fst (AList.delete ''extends'' config))"
        using assms(3) by (rule distinct_delete)
      have mk: "map_of (AList.delete ''extends'' config) k = Some (YList xs)"
        using assms(4,5) by (simp add: delete_conv)
      from merge_dicts_list_entry[OF dd mk, of base] d
      have "map_of d k = Some (YList ((case map_of base k of Some (YList ys) \<Rightarrow> ys | _ \<Rightarrow> []) @ xs))"
        by simp
      with e rec Inr show ?thesis by simp
    qed
  qed
  with l show ?thesis by simp
qed

lemma create_config_new:
  "st name = None \<Longrightarrow>
   create_config st name base_image = (True, st(name \<mapsto> config_data name base_image))"
  by (simp add: create_config_def)

lemma ex_created_simps:
  "ex_created ''mine'' = Some (config_data ''mine'' ''effekt/runpod-comfyui:base'')"
  "ex_created ''base'' = Some ex_base"
  by (simp_all add: ex_created_def create_config_def ex_store_def)

lemma ex_created_load_base:
  "load_config ex_created (Suc 0) ''base'' Map.empty = (Inr ex_base, [''base'' \<mapsto> ex_base])"
  by (simp add: load_config_plain ex_created_simps ex_extends_simps)

lemma ex_created_load_mine:
  "load_config ex_created (Suc (Suc 0)) ''mine'' Map.empty =
     (Inr (merge_dicts ex_base
             (AList.delete ''extends'' (config_data ''mine'' ''effekt/runpod-comfyui:base''))),
      [''base'' \<mapsto> ex_base,
       ''mine'' \<mapsto> merge_dicts ex_base
             (AList.delete ''extends'' (config_data ''mine'' ''effekt/runpod-comfyui:base''))])"
  by (simp add: load_config_extends[where s="''config-base.yaml''"
          and config="config_data ''mine'' ''effekt/runpod-comfyui:base''"]
        ex_created_simps config_data_marker ex_strip_simps ex_created_load_base)

lemma ex_base_nodes: "map_of ex_base ''nodes'' = Some (YList [YStr ''repoA''])"
  by (simp add: ex_base_def)

section \<open>Properties of the requirements file\<close>

lemma lines_of_no_newline: "newline \<notin> set s \<Longrightarrow> lines_of s = [s]"
  by (induction s) auto

lemma lines_of_append:
  "newline \<notin> set x \<Longrightarrow> lines_of (x @ newline # rest) = x # lines_of rest"
  by (induction x) auto

lemma lines_of_join:
  "ys \<noteq> [] \<Longrightarrow> \<forall>y\<in>set ys. newline \<notin> set y \<Longrightarrow> lines_of (join [newline] ys) = ys"
proof (induction "[newline]" ys rule: join.induct)
  case 1
  then show ?case by simp
next
  case (2 x)
  then show ?case by (simp add: lines_of_no_newline)
next
  case (3 x y ys)
  then show ?case by (simp add: lines_of_append)
qed

lemma fold_set_add_set: "set (fold set_add xs acc) = set acc \<union> set xs"
  by (induction xs arbitrary: acc) (auto simp: set_add_def)

lemma fold_set_add_distinct: "distinct acc \<Longrightarrow> distinct (fold set_add xs acc)"
  by (induction xs arbitrary: acc) (auto simp: set_add_def)

lemma py_set_set: "set (py_set xs) = set xs"
  by (simp add: py_set_def fold_set_add_set)

lemma py_set_distinct: "distinct (py_set xs)"
  by (simp add: py_set_def fold_set_add_distinct)

lemma py_list_set: "set (py_list slot s) = set s"
  by (simp add: py_list_def)

lemma py_list_distinct: "distinct (py_list slot s) = distinct s"
  by (simp add: py_list_def)

lemma count_list_distinct: "distinct xs \<Longrightarrow> x \<in> set xs \<Longrightarrow> count_list xs x = 1"
  by (induction xs) auto

lemma py_list_sorted:
  "sorted (map (slot s) s) \<Longrightarrow> py_list slot s = s"
  by (simp add: py_list_def sort_key_id_if_sorted)

lemma py_set_distinct_id: "distinct xs \<Longrightarrow> py_set xs = xs"
proof -
  have "distinct (acc @ xs) \<Longrightarrow> fold set_add xs acc = acc @ xs" for acc
    by (induction xs arbitrary: acc) (auto simp: set_add_def)
  from this[of "[]"] show "distinct xs \<Longrightarrow> py_set xs = xs" by (simp add: py_set_def)
qed

lemma ex_py_set:
  "py_set [''torch'', ''numpy'', ''torch''] = [''torch'', ''numpy'']"
  "py_set [''numpy'', ''torch''] = [''numpy'', ''torch'']"
  by (simp_all add: py_set_def set_add_def)

lemma ex_py_list:
  "py_list ex_slot [''torch'', ''numpy''] = [''numpy'', ''torch'']"
  "py_list ex_slot [''numpy'', ''torch''] = [''torch'', ''numpy'']"
  "py_list ex_slot_kept [''numpy'', ''torch''] = [''numpy'', ''torch'']"
  by (simp_all add: py_list_def ex_slot_def ex_slot_kept_def)

section \<open>Properties of the validator\<close>

lemma py_iter_sequence: "is_sequence v \<Longrightarrow> py_iter v = Inr (entries v)"
  by (cases v) simp_all

lemma check_required_None:
  "check_required required_fields config = None
   \<longleftrightarrow> map_of config ''name'' \<noteq> None \<and> map_of config ''version'' \<noteq> None"
  by (simp add: required_fields_def)

lemma check_nodes_None:
  "check_nodes nodes = None
   \<longleftrightarrow> list_all (\<lambda>node. is_mapping node \<longrightarrow> carries ''url'' node) nodes"
proof (induction nodes)
  case Nil
  then show ?case by simp
next
  case (Cons node nodes)
  then show ?case by (cases node) auto
qed

lemma check_model_list_mappings:
  "list_all is_mapping ms \<Longrightarrow>
   \<exists>r. check_model_list ms = Inr r
      \<and> (r = None \<longleftrightarrow> list_all (\<lambda>model. carries ''url'' model \<and> carries ''name'' model) ms)"
proof (induction ms)
  case Nil
  then show ?case by simp
next
  case (Cons model ms)
  from Cons.prems obtain kvs where m: "model = YDict kvs" by (cases model) auto
  from Cons.prems Cons.IH obtain r where
    r: "check_model_list ms = Inr r"
       "r = None \<longleftrightarrow> list_all (\<lambda>model. carries ''url'' model \<and> carries ''name'' model) ms"
    by auto
  show ?case unfolding m using r by auto
qed

lemma check_models_shaped:
  "list_all (\<lambda>cat. is_sequence (snd cat) \<and> list_all is_mapping (entries (snd cat))) cats \<Longrightarrow>
   \<exists>r. check_models cats = Inr r
      \<and> (r = None \<longleftrightarrow>
           list_all (\<lambda>cat. list_all (\<lambda>model. carries ''url'' model \<and> carries ''name'' model)
                              (entries (snd cat))) cats)"
proof (induction cats)
  case Nil
  then show ?case by simp
next
  case (Cons cat cats)
  obtain model_type model_list where c: "cat = (model_type, model_list)" by (cases cat)
  from Cons.prems c obtain ms where l: "model_list = YList ms" and ms: "list_all is_mapping ms"
    by (cases model_list) auto
  from check_model_list_mappings[OF ms] obtain r1 where
    r1: "check_model_list ms = Inr r1"
        "r1 = None \<longleftrightarrow> list_all (\<lambda>model. carries ''url'' model \<and> carries ''name'' model) ms"
    by blast
  from Cons.prems Cons.IH obtain r where
    r: "check_models cats = Inr r"
       "r = None \<longleftrightarrow>
           list_all (\<lambda>cat. list_all (\<lambda>model. carries ''url'' model \<and> carries ''name'' model)
                              (entries (snd cat))) cats"
    by auto
  show ?case
  proof (cases r1)
    case None
    with r1 r show ?thesis unfolding c l by simp
  next
    case (Some m)
    with r1 show ?thesis unfolding c l by auto
  qed
qed

lemma check_document_shaped:
  assumes "follows_data_model config"
  shows "\<exists>r. check_document config = Inr r \<and> (r = None \<longleftrightarrow> spec_valid config)"
proof (cases "check_required required_fields config")
  case (Some m)
  then have "\<not> (map_of config ''name'' \<noteq> None \<and> map_of config ''version'' \<noteq> None)"
    using check_required_None[of config] by simp
  then have "\<not> spec_valid config" unfolding spec_valid_def by blast
  with Some show ?thesis by (simp add: check_document_def)
next
  case None
  then have req: "map_of config ''name'' \<noteq> None \<and> map_of config ''version'' \<noteq> None"
    using check_required_None[of config] by simp
  from assms have it: "py_iter (case map_of config ''nodes'' of None \<Rightarrow> YList [] | Some v \<Rightarrow> v)
                         = Inr (nodes_of config)"
    by (auto simp: follows_data_model_def nodes_of_def py_iter_sequence
          split: option.splits yval.splits)
  show ?thesis
  proof (cases "check_nodes (nodes_of config)")
    case (Some m)
    then have "\<not> list_all (\<lambda>node. is_mapping node \<longrightarrow> carries ''url'' node) (nodes_of config)"
      using check_nodes_None[of "nodes_of config"] by simp
    then have "\<not> spec_valid config" unfolding spec_valid_def by blast
    with None it Some show ?thesis by (simp add: check_document_def)
  next
    case nn: None
    then have nodes: "list_all (\<lambda>node. is_mapping node \<longrightarrow> carries ''url'' node) (nodes_of config)"
      using check_nodes_None[of "nodes_of config"] by simp
    from assms have md: "(case map_of config ''models'' of None \<Rightarrow> YDict [] | Some v \<Rightarrow> v)
                           = YDict (categories_of config)"
      and sh: "list_all (\<lambda>cat. is_sequence (snd cat) \<and> list_all is_mapping (entries (snd cat)))
                 (categories_of config)"
      by (auto simp: follows_data_model_def categories_of_def split: option.splits yval.splits)
    from check_models_shaped[OF sh] obtain r where
      r: "check_models (categories_of config) = Inr r"
         "r = None \<longleftrightarrow>
           list_all (\<lambda>cat. list_all (\<lambda>model. carries ''url'' model \<and> carries ''name'' model)
                              (entries (snd cat))) (categories_of config)"
      by blast
    have "check_document config = Inr r"
      using None it nn md r(1) by (simp add: check_document_def)
    moreover have "r = None \<longleftrightarrow> spec_valid config"
      using req nodes r(2) by (simp add: spec_valid_def)
    ultimately show ?thesis by blast
  qed
qed

lemma validate_config_loaded:
  assumes "st name \<noteq> None" and "load name c = (Inr config, c')"
  shows "validate_config load st name c =
           (case check_document config of
              Inl e \<Rightarrow> ((False, [Error_validating e]), c')
            | Inr (Some m) \<Rightarrow> ((False, [m]), c')
            | Inr None \<Rightarrow> ((True, [Config_is_valid name]), c'))"
  using assms by (auto simp: validate_config_def)

lemma check_required_error: "check_required fields config = Some m \<Longrightarrow> is_error m"
  by (induction fields) (auto split: if_splits)

lemma check_nodes_error: "check_nodes nodes = Some m \<Longrightarrow> is_error m"
proof (induction nodes)
  case Nil
  then show ?case by simp
next
  case (Cons node nodes)
  then show ?case by (cases node) (auto split: if_splits)
qed

lemma check_model_list_error: "check_model_list ms = Inr (Some m) \<Longrightarrow> is_error m"
  by (induction ms) (auto split: sum.splits if_splits)

lemma check_models_error: "check_models cats = Inr (Some m) \<Longrightarrow> is_error m"
proof (induction cats)
  case Nil
  then show ?case by simp
next
  case (Cons cat cats)
  obtain model_type model_list where c: "cat = (model_type, model_list)" by (cases cat)
  from Cons show ?case unfolding c
    by (auto split: sum.splits option.splits dest: check_model_list_error)
qed

lemma check_document_error: "check_document config = Inr (Some m) \<Longrightarrow> is_error m"
  unfolding check_document_def
  by (auto split: option.splits sum.splits yval.splits
       dest: check_required_error check_nodes_error check_models_error)

lemma validate_config_one_message:
  "\<exists>m. snd (fst (validate_config load st name c)) = [m]
      \<and> fst (fst (validate_config load st name c)) = (\<not> is_error m)"
  by (auto simp: validate_config_def split: option.splits prod.splits sum.splits
        dest: check_document_error)

lemma ex_vstore_simps:
  "ex_vstore ''bad'' = Some ex_bad"
  "ex_vstore ''nameless'' = Some ex_nameless"
  "ex_vstore ''nullnodes'' = Some ex_nullnodes"
  "ex_vstore ''unversioned'' = Some ex_unversioned"
  "ex_vstore ''base'' = Some ex_base"
  by (simp_all add: ex_vstore_def)

lemma ex_vstore_extends:
  "map_of ex_bad ''extends'' = None"
  "map_of ex_nameless ''extends'' = None"
  "map_of ex_nullnodes ''extends'' = None"
  "map_of ex_unversioned ''extends'' = None"
  by (simp_all add: ex_bad_def ex_nameless_def ex_nullnodes_def ex_unversioned_def)

lemma ex_vstore_load:
  "load_config ex_vstore (Suc 0) ''bad'' Map.empty = (Inr ex_bad, [''bad'' \<mapsto> ex_bad])"
  "load_config ex_vstore (Suc 0) ''nameless'' Map.empty =
     (Inr ex_nameless, [''nameless'' \<mapsto> ex_nameless])"
  "load_config ex_vstore (Suc 0) ''nullnodes'' Map.empty =
     (Inr ex_nullnodes, [''nullnodes'' \<mapsto> ex_nullnodes])"
  "load_config ex_vstore (Suc 0) ''unversioned'' Map.empty =
     (Inr ex_unversioned, [''unversioned'' \<mapsto> ex_unversioned])"
  "load_config ex_vstore (Suc 0) ''base'' Map.empty = (Inr ex_base, [''base'' \<mapsto> ex_base])"
  by (simp_all add: load_config_plain ex_vstore_simps ex_vstore_extends ex_extends_simps)

lemma ex_check_document:
  "check_document ex_bad = Inr (Some (Missing_required_field ''version''))"
  "check_document ex_nameless = Inr (Some (Missing_required_field ''name''))"
  "check_document ex_nullnodes = Inl TypeError"
  "check_document ex_unversioned = Inr (Some (Missing_required_field ''version''))"
  by (simp_all add: check_document_def required_fields_def ex_bad_def ex_nameless_def
        ex_nullnodes_def ex_unversioned_def)

lemma ex_check_document_base: "check_document ex_base = Inr None"
  by (simp add: check_document_def required_fields_def ex_base_def)

lemma ex_base_shape: "follows_data_model ex_base" "spec_valid ex_base"
  by (simp_all add: follows_data_model_def spec_valid_def nodes_of_def categories_of_def
        ex_base_def)

lemma ex_validate:
  "validate_config (load_config ex_vstore (Suc 0)) ex_vstore ''bad'' Map.empty =
     ((False, [Missing_required_field ''version'']), [''bad'' \<mapsto> ex_bad])"
  "validate_config (load_config ex_vstore (Suc 0)) ex_vstore ''nameless'' Map.empty =
     ((False, [Missing_required_field ''name'']), [''nameless'' \<mapsto> ex_nameless])"
  "validate_config (load_config ex_vstore (Suc 0)) ex_vstore ''nullnodes'' Map.empty =
     ((False, [Error_validating TypeError]), [''nullnodes'' \<mapsto> ex_nullnodes])"
  by (simp_all add: validate_config_loaded[where config=ex_bad and c'="[''bad'' \<mapsto> ex_bad]"]
       validate_config_loaded[where config=ex_nameless and c'="[''nameless'' \<mapsto> ex_nameless]"]
       validate_config_loaded[where config=ex_nullnodes and c'="[''nullnodes'' \<mapsto> ex_nullnodes]"]
       ex_vstore_simps ex_vstore_load ex_check_document)

section \<open>The order of the checks\<close>

lemma check_nodes_pass: "list_all node_passes nodes \<Longrightarrow> check_nodes nodes = None"
proof (induction nodes)
  case Nil
  then show ?case by simp
next
  case (Cons node nodes)
  then show ?case by (cases node) (auto simp: node_passes_def)
qed

lemma check_nodes_first:
  "list_all node_passes pre \<Longrightarrow> map_of kvs ''url'' = None
   \<Longrightarrow> check_nodes (pre @ YDict kvs # rest) = Some (Node_missing_URL (YDict kvs))"
proof (induction pre)
  case Nil
  then show ?case by simp
next
  case (Cons node pre)
  then show ?case by (cases node) (auto simp: node_passes_def)
qed

lemma check_model_list_pass: "list_all model_passes ms \<Longrightarrow> check_model_list ms = Inr None"
  by (induction ms) (auto simp: model_passes_def)

lemma check_model_list_first:
  "list_all model_passes mpre \<Longrightarrow> model_offends model
   \<Longrightarrow> check_model_list (mpre @ model # mrest) =
         Inr (Some (Model_missing_required_fields model))"
proof (induction mpre)
  case Nil
  then show ?case by (auto simp: model_offends_def)
next
  case (Cons m mpre)
  then show ?case by (auto simp: model_passes_def)
qed

lemma check_models_pass: "list_all category_passes cats \<Longrightarrow> check_models cats = Inr None"
proof (induction cats)
  case Nil
  then show ?case by simp
next
  case (Cons cat cats)
  obtain model_type model_list where c: "cat = (model_type, model_list)" by (cases cat)
  from Cons show ?case unfolding c
    by (auto simp: category_passes_def check_model_list_pass split: sum.splits)
qed

lemma check_models_first:
  assumes "list_all category_passes cpre"
    and "py_iter model_list = Inr (mpre @ model # mrest)"
    and "list_all model_passes mpre" and "model_offends model"
  shows "check_models (cpre @ (model_type, model_list) # crest) =
           Inr (Some (Model_missing_required_fields model))"
  using assms(1)
proof (induction cpre)
  case Nil
  from check_model_list_first[OF assms(3,4)] assms(2) show ?case by simp
next
  case (Cons cat cpre)
  obtain t l where c: "cat = (t, l)" by (cases cat)
  from Cons show ?case unfolding c
    by (auto simp: category_passes_def check_model_list_pass split: sum.splits)
qed

lemma check_required_fields:
  "map_of config ''name'' = None \<Longrightarrow>
     check_required required_fields config = Some (Missing_required_field ''name'')"
  "map_of config ''name'' \<noteq> None \<Longrightarrow> map_of config ''version'' = None \<Longrightarrow>
     check_required required_fields config = Some (Missing_required_field ''version'')"
  "map_of config ''name'' \<noteq> None \<Longrightarrow> map_of config ''version'' \<noteq> None \<Longrightarrow>
     check_required required_fields config = None"
  by (simp_all add: required_fields_def)

lemma check_document_stages:
  "check_required required_fields config = Some m \<Longrightarrow> check_document config = Inr (Some m)"
  "check_required required_fields config = None
   \<Longrightarrow> py_iter (case map_of config ''nodes'' of None \<Rightarrow> YList [] | Some v \<Rightarrow> v) = Inr nodes
   \<Longrightarrow> check_nodes nodes = Some m \<Longrightarrow> check_document config = Inr (Some m)"
  "check_required required_fields config = None
   \<Longrightarrow> py_iter (case map_of config ''nodes'' of None \<Rightarrow> YList [] | Some v \<Rightarrow> v) = Inr nodes
   \<Longrightarrow> check_nodes nodes = None
   \<Longrightarrow> (case map_of config ''models'' of None \<Rightarrow> YDict [] | Some v \<Rightarrow> v) = YDict items
   \<Longrightarrow> check_document config = check_models items"
  by (simp_all add: check_document_def)

lemma ex_ostore_load:
  "load_config ex_ostore (Suc 0) ''badnode'' Map.empty =
     (Inr ex_badnode, [''badnode'' \<mapsto> ex_badnode])"
  "load_config ex_ostore (Suc 0) ''badmodel'' Map.empty =
     (Inr ex_badmodel, [''badmodel'' \<mapsto> ex_badmodel])"
  by (simp_all add: load_config_plain ex_ostore_def ex_badnode_def ex_badmodel_def)

lemma ex_badnode_facts:
  "map_of ex_badnode ''name'' \<noteq> None \<and> map_of ex_badnode ''version'' \<noteq> None"
  "py_iter (case map_of ex_badnode ''nodes'' of None \<Rightarrow> YList [] | Some v \<Rightarrow> v) =
     Inr ([YStr ''repoA''] @ YDict [(''branch'', YStr ''main'')] # [YDict [(''commit'', YStr ''abc'')]])"
  "list_all node_passes [YStr ''repoA'']"
  "map_of [(''branch'', YStr ''main'')] ''url'' = None"
  by (simp_all add: ex_badnode_def node_passes_def)

lemma ex_badmodel_facts:
  "map_of ex_badmodel ''name'' \<noteq> None \<and> map_of ex_badmodel ''version'' \<noteq> None"
  "py_iter (case map_of ex_badmodel ''nodes'' of None \<Rightarrow> YList [] | Some v \<Rightarrow> v) =
     Inr [YStr ''repoA'']"
  "list_all node_passes [YStr ''repoA'']"
  "(case map_of ex_badmodel ''models'' of None \<Rightarrow> YDict [] | Some v \<Rightarrow> v) =
     YDict ([(''checkpoints'', YList [YDict [(''url'', YStr ''u0''), (''name'', YStr ''m0'')]])]
            @ (''loras'', YList [YDict [(''url'', YStr ''u1''), (''name'', YStr ''m1'')],
                                 YDict [(''url'', YStr ''u2'')],
                                 YDict [(''name'', YStr ''m3'')]]) # [])"
  "list_all category_passes
     [(''checkpoints'', YList [YDict [(''url'', YStr ''u0''), (''name'', YStr ''m0'')]])]"
  "py_iter (YList [YDict [(''url'', YStr ''u1''), (''name'', YStr ''m1'')],
                   YDict [(''url'', YStr ''u2'')],
                   YDict [(''name'', YStr ''m3'')]]) =
     Inr ([YDict [(''url'', YStr ''u1''), (''name'', YStr ''m1'')]]
          @ YDict [(''url'', YStr ''u2'')] # [YDict [(''name'', YStr ''m3'')]])"
  "list_all model_passes [YDict [(''url'', YStr ''u1''), (''name'', YStr ''m1'')]]"
  "model_offends (YDict [(''url'', YStr ''u2'')])"
  by (simp_all add: ex_badmodel_def node_passes_def category_passes_def model_passes_def
        model_offends_def)

section \<open>The claims\<close>

text \<open>
  C1. The deep merge of a base document and an override whose keys are distinct, read
  at any key: a key bound only in the base keeps the base's value, a key bound only in
  the override takes the override's value, two mappings are merged by the same function,
  two sequences are concatenated, base items first (so the length is the sum of the
  lengths), and in every other case (two scalars, or values of different kinds) the
  override's value replaces the base's. The simple loader returns this merge of the
  resolved ancestor and the source without its \<^verbatim>\<open>extends\<close> key.
\<close>

theorem merge_dicts_rules:
  assumes "distinct (map fst override)"
  shows "(map_of override k = None \<longrightarrow>
            map_of (merge_dicts base override) k = map_of base k)
       \<and> (\<forall>v. map_of base k = None \<and> map_of override k = Some v \<longrightarrow>
            map_of (merge_dicts base override) k = Some v)
       \<and> (\<forall>b v. map_of base k = Some (YDict b) \<and> map_of override k = Some (YDict v) \<longrightarrow>
            map_of (merge_dicts base override) k = Some (YDict (merge_dicts b v)))
       \<and> (\<forall>b v. map_of base k = Some (YList b) \<and> map_of override k = Some (YList v) \<longrightarrow>
            map_of (merge_dicts base override) k = Some (YList (b @ v))
            \<and> length (b @ v) = length b + length v)
       \<and> (\<forall>x y. map_of base k = Some x \<and> map_of override k = Some y
              \<and> \<not> (\<exists>b v. x = YDict b \<and> y = YDict v)
              \<and> \<not> (\<exists>b v. x = YList b \<and> y = YList v) \<longrightarrow>
            map_of (merge_dicts base override) k = Some y)
       \<and> (\<forall>st limit n c config s c1. c n = None \<and> st n = Some config
              \<and> map_of config ''extends'' = Some (YStr s)
              \<and> AList.delete ''extends'' config = override
              \<and> load_config st limit (strip_name s) c = (Inr base, c1) \<longrightarrow>
            fst (load_config st (Suc limit) n c) = Inr (merge_dicts base override))"
proof -
  have m: "(map_of override k = None \<longrightarrow>
            map_of (merge_dicts base override) k = map_of base k)
       \<and> (\<forall>v. map_of base k = None \<and> map_of override k = Some v \<longrightarrow>
            map_of (merge_dicts base override) k = Some v)
       \<and> (\<forall>b v. map_of base k = Some (YDict b) \<and> map_of override k = Some (YDict v) \<longrightarrow>
            map_of (merge_dicts base override) k = Some (YDict (merge_dicts b v)))
       \<and> (\<forall>b v. map_of base k = Some (YList b) \<and> map_of override k = Some (YList v) \<longrightarrow>
            map_of (merge_dicts base override) k = Some (YList (b @ v))
            \<and> length (b @ v) = length b + length v)
       \<and> (\<forall>x y. map_of base k = Some x \<and> map_of override k = Some y
              \<and> \<not> (\<exists>b v. x = YDict b \<and> y = YDict v)
              \<and> \<not> (\<exists>b v. x = YList b \<and> y = YList v) \<longrightarrow>
            map_of (merge_dicts base override) k = Some y)"
    using map_of_merge_dicts[OF assms, of base k]
    by (auto simp: merge_entry_def merge_lists_def split: option.splits yval.splits)
  have r: "\<forall>st limit n c config s c1. c n = None \<and> st n = Some config
              \<and> map_of config ''extends'' = Some (YStr s)
              \<and> AList.delete ''extends'' config = override
              \<and> load_config st limit (strip_name s) c = (Inr base, c1) \<longrightarrow>
            fst (load_config st (Suc limit) n c) = Inr (merge_dicts base override)"
    by (auto simp: load_config_extends)
  from m r show ?thesis by blast
qed

theorem merge_dicts_rules_witness:
  "distinct (map fst ex_child)
   \<and> map_of (merge_dicts ex_base ex_child) ''version'' = Some (YStr ''1.0'')
   \<and> map_of (merge_dicts ex_base ex_child) ''workflows'' = Some (YList [YStr ''w.json''])
   \<and> map_of (merge_dicts ex_base ex_child) ''name'' = Some (YStr ''child'')
   \<and> map_of (merge_dicts ex_base ex_child) ''nodes'' = Some (YList [YStr ''repoA'', YStr ''repoB''])
   \<and> map_of (merge_dicts ex_base ex_child) ''env_vars'' = Some (YDict [(''A'', YStr ''1'')])
   \<and> map_of (merge_dicts ex_base ex_child) ''models'' =
       Some (YDict (merge_dicts
          [(''checkpoints'', YList [YDict [(''url'', YStr ''u0''), (''name'', YStr ''m0'')]]),
           (''loras'', YList [YDict [(''url'', YStr ''u2''), (''name'', YStr ''m2'')]])]
          [(''checkpoints'', YList [YDict [(''url'', YStr ''u1''), (''name'', YStr ''m1'')]])]))
   \<and> fst (load_config ex_store (Suc (Suc 0)) ''child'' Map.empty) =
       Inr (merge_dicts ex_base ex_child)"
proof -
  have d: "distinct (map fst ex_child)" by (simp add: ex_child_def)
  have e: "Map.empty ''child'' = (None :: doc option)" by simp
  have r7: "fst (load_config ex_store (Suc (Suc 0)) ''child'' Map.empty) =
       Inr (merge_dicts ex_base ex_child)"
    using merge_dicts_rules[OF d, of "''name''" ex_base] e ex_store_simps(2) ex_extends_simps(3)
      ex_delete_source ex_load_base[of 0] ex_strip_simps(1)
    by (metis (no_types))
  have b1: "map_of ex_base ''version'' = Some (YStr ''1.0'')"
    and c1: "map_of ex_child ''version'' = None"
    and b2: "map_of ex_base ''workflows'' = None"
    and c2: "map_of ex_child ''workflows'' = Some (YList [YStr ''w.json''])"
    and b3: "map_of ex_base ''name'' = Some (YStr ''base'')"
    and c3: "map_of ex_child ''name'' = Some (YStr ''child'')"
    and b4: "map_of ex_base ''nodes'' = Some (YList [YStr ''repoA''])"
    and c4: "map_of ex_child ''nodes'' = Some (YList [YStr ''repoB''])"
    and b5: "map_of ex_base ''env_vars'' = Some (YList [])"
    and c5: "map_of ex_child ''env_vars'' = Some (YDict [(''A'', YStr ''1'')])"
    and b6: "map_of ex_base ''models'' = Some (YDict
          [(''checkpoints'', YList [YDict [(''url'', YStr ''u0''), (''name'', YStr ''m0'')]]),
           (''loras'', YList [YDict [(''url'', YStr ''u2''), (''name'', YStr ''m2'')]])])"
    and c6: "map_of ex_child ''models'' = Some (YDict
          [(''checkpoints'', YList [YDict [(''url'', YStr ''u1''), (''name'', YStr ''m1'')]])])"
    by (simp_all add: ex_base_def ex_child_def)
  have r1: "map_of (merge_dicts ex_base ex_child) ''version'' = Some (YStr ''1.0'')"
    using merge_dicts_rules[OF d, of "''version''" ex_base] b1 c1 by simp
  have r2: "map_of (merge_dicts ex_base ex_child) ''workflows'' = Some (YList [YStr ''w.json''])"
    using merge_dicts_rules[OF d, of "''workflows''" ex_base] b2 c2 by simp
  have r3: "map_of (merge_dicts ex_base ex_child) ''name'' = Some (YStr ''child'')"
    using merge_dicts_rules[OF d, of "''name''" ex_base] b3 c3 by simp
  have r4: "map_of (merge_dicts ex_base ex_child) ''nodes'' = Some (YList [YStr ''repoA'', YStr ''repoB''])"
    using merge_dicts_rules[OF d, of "''nodes''" ex_base] b4 c4 by simp
  have r5: "map_of (merge_dicts ex_base ex_child) ''env_vars'' = Some (YDict [(''A'', YStr ''1'')])"
    using merge_dicts_rules[OF d, of "''env_vars''" ex_base] b5 c5 by simp
  have r6: "map_of (merge_dicts ex_base ex_child) ''models'' =
       Some (YDict (merge_dicts
          [(''checkpoints'', YList [YDict [(''url'', YStr ''u0''), (''name'', YStr ''m0'')]]),
           (''loras'', YList [YDict [(''url'', YStr ''u2''), (''name'', YStr ''m2'')]])]
          [(''checkpoints'', YList [YDict [(''url'', YStr ''u1''), (''name'', YStr ''m1'')]])]))"
    using merge_dicts_rules[OF d, of "''models''" ex_base] b6 c6 by simp
  from d r1 r2 r3 r4 r5 r6 r7 show ?thesis by blast
qed

text \<open>
  C2, as the code has it. A configuration whose \<^verbatim>\<open>extends\<close> names a configuration
  without a source file: the simple loader raises the same \<^verbatim>\<open>FileNotFoundError\<close>, with
  the ancestor's name, that loading the ancestor itself raises, and leaves the cache as it
  was; the HiYaPyCo loader raises nothing, and returns and caches the single file
  without its \<^verbatim>\<open>extends\<close> key.
\<close>

theorem missing_ancestor:
  assumes "c name = None" and "st name = Some config"
    and "map_of config ''extends'' = Some (YStr s)"
    and "c (strip_name s) = None" and "st (strip_name s) = None"
  shows "load_config st (Suc (Suc limit)) name c = (Inl (FileNotFoundError (strip_name s)), c)
       \<and> load_config st (Suc limit) (strip_name s) c = (Inl (FileNotFoundError (strip_name s)), c)
       \<and> load_config_hiyapyco h st name c =
           (Inr (AList.delete ''extends'' config), c(name \<mapsto> AList.delete ''extends'' config))"
  using assms by (simp add: load_config_extends load_config_missing hiyapyco_no_base)

theorem missing_ancestor_witness:
  "Map.empty ''orphan'' = (None :: doc option) \<and> ex_store ''orphan'' = Some ex_orphan
   \<and> map_of ex_orphan ''extends'' = Some (YStr ''ghost'')
   \<and> ex_store (strip_name ''ghost'') = None
   \<and> load_config ex_store (Suc (Suc 0)) ''orphan'' Map.empty =
       (Inl (FileNotFoundError ''ghost''), Map.empty)
   \<and> load_config_hiyapyco ex_hiyapyco_load ex_store ''orphan'' Map.empty =
       (Inr (AList.delete ''extends'' ex_orphan),
        [''orphan'' \<mapsto> AList.delete ''extends'' ex_orphan])"
  using missing_ancestor[of Map.empty "''orphan''" ex_store ex_orphan "''ghost''" 0 ex_hiyapyco_load]
  by (simp add: ex_store_simps ex_extends_simps ex_strip_simps)

text \<open>
  C2 as stated fails on the configuration \<open>orphan\<close>, which extends the name \<open>ghost\<close>
  without a source file: the simple loader raises for \<open>orphan\<close> exactly what it raises
  for \<open>ghost\<close> itself, the plain \<^verbatim>\<open>FileNotFoundError\<close>, and the HiYaPyCo loader
  returns the single file.
\<close>

theorem missing_ancestor_counterexample:
  "load_config ex_store (Suc (Suc 0)) ''orphan'' Map.empty =
       (Inl (FileNotFoundError ''ghost''), Map.empty)
   \<and> load_config ex_store (Suc 0) ''ghost'' Map.empty =
       (Inl (FileNotFoundError ''ghost''), Map.empty)
   \<and> load_config_hiyapyco ex_hiyapyco_load ex_store ''orphan'' Map.empty =
       (Inr [(''name'', YStr ''orphan''), (''version'', YStr ''1.0'')],
        [''orphan'' \<mapsto> [(''name'', YStr ''orphan''), (''version'', YStr ''1.0'')]])"
  by (simp add: load_config_extends[where config=ex_orphan and s="''ghost''"]
        hiyapyco_no_base[where config=ex_orphan and s="''ghost''"]
        load_config_missing ex_store_simps ex_extends_simps ex_strip_simps ex_delete_orphan)

text \<open>
  C3. From a cache that satisfies the invariant (the empty cache does), whenever either
  loader returns a document, the document has no key \<^verbatim>\<open>extends\<close>, it is the
  document cached under the name, and the cache satisfies the invariant again.
\<close>

theorem resolved_without_extends:
  assumes "cache_inv st c"
  shows "(\<forall>d c'. load_config st limit name c = (Inr d, c') \<longrightarrow>
            map_of d ''extends'' = None \<and> c' name = Some d \<and> cache_inv st c')
       \<and> (\<forall>d c'. load_config_hiyapyco h st name c = (Inr d, c') \<longrightarrow>
            map_of d ''extends'' = None \<and> c' name = Some d \<and> cache_inv st c')"
proof (intro conjI allI impI)
  fix d c' assume a: "load_config st limit name c = (Inr d, c')"
  from load_config_inv[OF assms a] show "map_of d ''extends'' = None" and "cache_inv st c'"
    by simp_all
  from a show "c' name = Some d" by (rule load_config_stores)
next
  fix d c' assume a: "load_config_hiyapyco h st name c = (Inr d, c')"
  from hiyapyco_inv[OF assms a]
  show "map_of d ''extends'' = None" and "c' name = Some d" and "cache_inv st c'"
    by simp_all
qed

theorem resolved_without_extends_witness:
  "cache_inv ex_store Map.empty
   \<and> load_config ex_store (Suc (Suc 0)) ''child'' Map.empty =
       (Inr (merge_dicts ex_base ex_child),
        [''base'' \<mapsto> ex_base, ''child'' \<mapsto> merge_dicts ex_base ex_child])
   \<and> map_of (merge_dicts ex_base ex_child) ''extends'' = None
   \<and> cache_inv ex_store [''base'' \<mapsto> ex_base, ''child'' \<mapsto> merge_dicts ex_base ex_child]
   \<and> load_config_hiyapyco ex_hiyapyco_load ex_store ''child'' Map.empty =
       (Inr (AList.delete ''extends'' (merge_dicts ex_base ex_source)),
        [''child'' \<mapsto> AList.delete ''extends'' (merge_dicts ex_base ex_source)])
   \<and> map_of (AList.delete ''extends'' (merge_dicts ex_base ex_source)) ''extends'' = None"
  using resolved_without_extends[OF ex_cache_inv, of "Suc (Suc 0)" "''child''" ex_hiyapyco_load]
    ex_cache_inv ex_load_child[of 0] ex_hiyapyco_child
  by simp

text \<open>
  C4. A name without a source file: from a cache that satisfies the invariant, either
  loader raises \<^verbatim>\<open>FileNotFoundError\<close> for that name, returns no document and leaves
  the cache as it was.
\<close>

theorem missing_source_not_found:
  assumes "cache_inv st c" and "st name = None"
  shows "load_config st (Suc limit) name c = (Inl (FileNotFoundError name), c)
       \<and> load_config_hiyapyco h st name c = (Inl (FileNotFoundError name), c)"
proof -
  from assms cache_inv_lookup[of st c name] have "c name = None" by (cases "c name") auto
  with assms(2) show ?thesis by (simp add: load_config_missing hiyapyco_missing)
qed

theorem missing_source_not_found_witness:
  "cache_inv ex_store Map.empty \<and> ex_store ''ghost'' = None
   \<and> load_config ex_store (Suc 0) ''ghost'' Map.empty = (Inl (FileNotFoundError ''ghost''), Map.empty)
   \<and> load_config_hiyapyco ex_hiyapyco_load ex_store ''ghost'' Map.empty =
       (Inl (FileNotFoundError ''ghost''), Map.empty)"
  using missing_source_not_found[OF ex_cache_inv ex_store_simps(6), of 0 ex_hiyapyco_load]
    ex_cache_inv ex_store_simps(6)
  by simp

text \<open>
  C5, as the code has it. For a document the loader has returned: when it follows the
  shapes of the data model, validation succeeds exactly when it is valid in the words of
  the specification; when it has \<open>name\<close> and lacks \<open>version\<close>, validation fails with
  the one error naming \<open>version\<close>; a successful validation logs that the configuration
  is valid; and validation leaves the cache as the loader left it.
\<close>

theorem validation_iff:
  assumes "st name \<noteq> None" and "load name c = (Inr config, c')"
  shows "(follows_data_model config \<longrightarrow>
            (fst (fst (validate_config load st name c)) \<longleftrightarrow> spec_valid config))
       \<and> (map_of config ''name'' \<noteq> None \<and> map_of config ''version'' = None \<longrightarrow>
            fst (validate_config load st name c) = (False, [Missing_required_field ''version'']))
       \<and> (fst (fst (validate_config load st name c)) \<longrightarrow>
            snd (fst (validate_config load st name c)) = [Config_is_valid name])
       \<and> snd (validate_config load st name c) = c'"
proof (intro conjI impI)
  note v = validate_config_loaded[where load=load and st=st and name=name and c=c, OF assms]
  show "snd (validate_config load st name c) = c'"
    unfolding v by (simp split: sum.splits option.splits)
  {
    assume "follows_data_model config"
    from check_document_shaped[OF this] obtain r where
      r: "check_document config = Inr r" "r = None \<longleftrightarrow> spec_valid config" by blast
    then show "fst (fst (validate_config load st name c)) \<longleftrightarrow> spec_valid config"
      unfolding v by (cases r) simp_all
  }
  {
    assume "map_of config ''name'' \<noteq> None \<and> map_of config ''version'' = None"
    then have "check_document config = Inr (Some (Missing_required_field ''version''))"
      by (simp add: check_document_def required_fields_def)
    then show "fst (validate_config load st name c) = (False, [Missing_required_field ''version''])"
      unfolding v by simp
  }
  {
    assume "fst (fst (validate_config load st name c))"
    then show "snd (fst (validate_config load st name c)) = [Config_is_valid name]"
      unfolding v by (simp split: sum.splits option.splits)
  }
qed

theorem validation_iff_witness:
  "ex_vstore ''base'' \<noteq> None
   \<and> load_config ex_vstore (Suc 0) ''base'' Map.empty = (Inr ex_base, [''base'' \<mapsto> ex_base])
   \<and> follows_data_model ex_base \<and> spec_valid ex_base
   \<and> validate_config (load_config ex_vstore (Suc 0)) ex_vstore ''base'' Map.empty =
       ((True, [Config_is_valid ''base'']), [''base'' \<mapsto> ex_base])
   \<and> ex_vstore ''unversioned'' \<noteq> None
   \<and> load_config ex_vstore (Suc 0) ''unversioned'' Map.empty =
       (Inr ex_unversioned, [''unversioned'' \<mapsto> ex_unversioned])
   \<and> map_of ex_unversioned ''name'' \<noteq> None \<and> map_of ex_unversioned ''version'' = None
   \<and> validate_config (load_config ex_vstore (Suc 0)) ex_vstore ''unversioned'' Map.empty =
       ((False, [Missing_required_field ''version'']), [''unversioned'' \<mapsto> ex_unversioned])"
proof -
  have s1: "ex_vstore ''base'' \<noteq> None" and s2: "ex_vstore ''unversioned'' \<noteq> None"
    by (simp_all add: ex_vstore_simps)
  have u: "map_of ex_unversioned ''name'' \<noteq> None \<and> map_of ex_unversioned ''version'' = None"
    by (simp add: ex_unversioned_def)
  from validation_iff[where load="load_config ex_vstore (Suc 0)" and st=ex_vstore
      and name="''base''" and c=Map.empty, OF s1 ex_vstore_load(5)] ex_base_shape
  have b: "validate_config (load_config ex_vstore (Suc 0)) ex_vstore ''base'' Map.empty =
       ((True, [Config_is_valid ''base'']), [''base'' \<mapsto> ex_base])"
    by (simp add: prod_eq_iff)
  from validation_iff[where load="load_config ex_vstore (Suc 0)" and st=ex_vstore
      and name="''unversioned''" and c=Map.empty, OF s2 ex_vstore_load(4)] u
  have n: "validate_config (load_config ex_vstore (Suc 0)) ex_vstore ''unversioned'' Map.empty =
       ((False, [Missing_required_field ''version'']), [''unversioned'' \<mapsto> ex_unversioned])"
    by (simp add: prod_eq_iff)
  from s1 s2 u b n ex_vstore_load(4,5) ex_base_shape show ?thesis by simp
qed

text \<open>
  C5 as stated fails on two documents: \<open>nullnodes\<close> is valid in the words of the
  specification, and validation fails on it with a \<^verbatim>\<open>TypeError\<close>, raised by the loop
  over \<open>nodes\<close>; \<open>nameless\<close> lacks \<open>version\<close>, and the one error logged names
  \<open>name\<close>.
\<close>

theorem validation_counterexample:
  "spec_valid ex_nullnodes
   \<and> validate_config (load_config ex_vstore (Suc 0)) ex_vstore ''nullnodes'' Map.empty =
       ((False, [Error_validating TypeError]), [''nullnodes'' \<mapsto> ex_nullnodes])
   \<and> map_of ex_nameless ''version'' = None
   \<and> validate_config (load_config ex_vstore (Suc 0)) ex_vstore ''nameless'' Map.empty =
       ((False, [Missing_required_field ''name'']), [''nameless'' \<mapsto> ex_nameless])"
proof -
  have "spec_valid ex_nullnodes"
    by (simp add: spec_valid_def nodes_of_def categories_of_def ex_nullnodes_def)
  moreover have "map_of ex_nameless ''version'' = None" by (simp add: ex_nameless_def)
  ultimately show ?thesis using ex_validate(2,3) by simp
qed

text \<open>
  C6, as the code has it. For a document the loader has returned, validation logs
  exactly one message, an error exactly when it returns \<^verbatim>\<open>False\<close>, and it is the
  first offence in the order of the checks: the missing \<open>name\<close>; else the missing
  \<open>version\<close>; else the first node that is a mapping without \<open>url\<close>, in the order of
  the nodes; else, when every node passes, the first offending model, by category in the
  order of the categories and within a category in the order of its models. What comes
  after the first offence is not reported. When nothing offends, validation returns
  \<^verbatim>\<open>True\<close> and logs that the configuration is valid.
\<close>

theorem validation_first_offence:
  assumes "st name \<noteq> None" and "load name c = (Inr config, c')"
  shows "(\<exists>m. snd (fst (validate_config load st name c)) = [m]
            \<and> fst (fst (validate_config load st name c)) = (\<not> is_error m))
   \<and> (map_of config ''name'' = None \<longrightarrow>
         fst (validate_config load st name c) = (False, [Missing_required_field ''name'']))
   \<and> (map_of config ''name'' \<noteq> None \<and> map_of config ''version'' = None \<longrightarrow>
         fst (validate_config load st name c) = (False, [Missing_required_field ''version'']))
   \<and> (\<forall>pre kvs rest. map_of config ''name'' \<noteq> None \<and> map_of config ''version'' \<noteq> None
         \<and> py_iter (case map_of config ''nodes'' of None \<Rightarrow> YList [] | Some v \<Rightarrow> v)
             = Inr (pre @ YDict kvs # rest)
         \<and> list_all node_passes pre \<and> map_of kvs ''url'' = None \<longrightarrow>
         fst (validate_config load st name c) = (False, [Node_missing_URL (YDict kvs)]))
   \<and> (\<forall>nodes cpre model_type model_list crest mpre model mrest.
         map_of config ''name'' \<noteq> None \<and> map_of config ''version'' \<noteq> None
         \<and> py_iter (case map_of config ''nodes'' of None \<Rightarrow> YList [] | Some v \<Rightarrow> v) = Inr nodes
         \<and> list_all node_passes nodes
         \<and> (case map_of config ''models'' of None \<Rightarrow> YDict [] | Some v \<Rightarrow> v)
             = YDict (cpre @ (model_type, model_list) # crest)
         \<and> list_all category_passes cpre
         \<and> py_iter model_list = Inr (mpre @ model # mrest)
         \<and> list_all model_passes mpre \<and> model_offends model \<longrightarrow>
         fst (validate_config load st name c) = (False, [Model_missing_required_fields model]))
   \<and> (\<forall>nodes items.
         map_of config ''name'' \<noteq> None \<and> map_of config ''version'' \<noteq> None
         \<and> py_iter (case map_of config ''nodes'' of None \<Rightarrow> YList [] | Some v \<Rightarrow> v) = Inr nodes
         \<and> list_all node_passes nodes
         \<and> (case map_of config ''models'' of None \<Rightarrow> YDict [] | Some v \<Rightarrow> v) = YDict items
         \<and> list_all category_passes items \<longrightarrow>
         fst (validate_config load st name c) = (True, [Config_is_valid name]))"
proof -
  note v = validate_config_loaded[where load=load and st=st and name=name and c=c, OF assms]
  have one: "\<exists>m. snd (fst (validate_config load st name c)) = [m]
            \<and> fst (fst (validate_config load st name c)) = (\<not> is_error m)"
    by (rule validate_config_one_message)
  have f1: "map_of config ''name'' = None \<longrightarrow>
         fst (validate_config load st name c) = (False, [Missing_required_field ''name''])"
    unfolding v by (auto simp: check_document_stages(1) check_required_fields(1))
  have f2: "map_of config ''name'' \<noteq> None \<and> map_of config ''version'' = None \<longrightarrow>
         fst (validate_config load st name c) = (False, [Missing_required_field ''version''])"
    unfolding v by (auto simp: check_document_stages(1) check_required_fields(2))
  have f3: "\<forall>pre kvs rest. map_of config ''name'' \<noteq> None \<and> map_of config ''version'' \<noteq> None
         \<and> py_iter (case map_of config ''nodes'' of None \<Rightarrow> YList [] | Some v \<Rightarrow> v)
             = Inr (pre @ YDict kvs # rest)
         \<and> list_all node_passes pre \<and> map_of kvs ''url'' = None \<longrightarrow>
         fst (validate_config load st name c) = (False, [Node_missing_URL (YDict kvs)])"
  proof (intro allI impI)
    fix pre kvs rest
    assume h: "map_of config ''name'' \<noteq> None \<and> map_of config ''version'' \<noteq> None
         \<and> py_iter (case map_of config ''nodes'' of None \<Rightarrow> YList [] | Some v \<Rightarrow> v)
             = Inr (pre @ YDict kvs # rest)
         \<and> list_all node_passes pre \<and> map_of kvs ''url'' = None"
    then have r: "check_required required_fields config = None"
      by (simp add: check_required_fields(3))
    from h have n: "check_nodes (pre @ YDict kvs # rest) = Some (Node_missing_URL (YDict kvs))"
      by (simp add: check_nodes_first)
    from h have "check_document config = Inr (Some (Node_missing_URL (YDict kvs)))"
      using check_document_stages(2)[OF r _ n] by blast
    then show "fst (validate_config load st name c) = (False, [Node_missing_URL (YDict kvs)])"
      unfolding v by simp
  qed
  have f4: "\<forall>nodes cpre model_type model_list crest mpre model mrest.
         map_of config ''name'' \<noteq> None \<and> map_of config ''version'' \<noteq> None
         \<and> py_iter (case map_of config ''nodes'' of None \<Rightarrow> YList [] | Some v \<Rightarrow> v) = Inr nodes
         \<and> list_all node_passes nodes
         \<and> (case map_of config ''models'' of None \<Rightarrow> YDict [] | Some v \<Rightarrow> v)
             = YDict (cpre @ (model_type, model_list) # crest)
         \<and> list_all category_passes cpre
         \<and> py_iter model_list = Inr (mpre @ model # mrest)
         \<and> list_all model_passes mpre \<and> model_offends model \<longrightarrow>
         fst (validate_config load st name c) = (False, [Model_missing_required_fields model])"
  proof (intro allI impI)
    fix nodes cpre model_type model_list crest mpre model mrest
    assume h: "map_of config ''name'' \<noteq> None \<and> map_of config ''version'' \<noteq> None
         \<and> py_iter (case map_of config ''nodes'' of None \<Rightarrow> YList [] | Some v \<Rightarrow> v) = Inr nodes
         \<and> list_all node_passes nodes
         \<and> (case map_of config ''models'' of None \<Rightarrow> YDict [] | Some v \<Rightarrow> v)
             = YDict (cpre @ (model_type, model_list) # crest)
         \<and> list_all category_passes cpre
         \<and> py_iter model_list = Inr (mpre @ model # mrest)
         \<and> list_all model_passes mpre \<and> model_offends model"
    then have r: "check_required required_fields config = None"
      by (simp add: check_required_fields(3))
    from h have n: "check_nodes nodes = None" by (simp add: check_nodes_pass)
    from h have i: "py_iter (case map_of config ''nodes'' of None \<Rightarrow> YList [] | Some v \<Rightarrow> v) = Inr nodes"
      and md: "(case map_of config ''models'' of None \<Rightarrow> YDict [] | Some v \<Rightarrow> v)
             = YDict (cpre @ (model_type, model_list) # crest)"
      by simp_all
    from h have m: "check_models (cpre @ (model_type, model_list) # crest) =
           Inr (Some (Model_missing_required_fields model))"
      using check_models_first[of cpre model_list mpre model mrest model_type crest] by blast
    from check_document_stages(3)[OF r i n md] m
    have "check_document config = Inr (Some (Model_missing_required_fields model))" by simp
    then show "fst (validate_config load st name c) = (False, [Model_missing_required_fields model])"
      unfolding v by simp
  qed
  have f5: "\<forall>nodes items.
         map_of config ''name'' \<noteq> None \<and> map_of config ''version'' \<noteq> None
         \<and> py_iter (case map_of config ''nodes'' of None \<Rightarrow> YList [] | Some v \<Rightarrow> v) = Inr nodes
         \<and> list_all node_passes nodes
         \<and> (case map_of config ''models'' of None \<Rightarrow> YDict [] | Some v \<Rightarrow> v) = YDict items
         \<and> list_all category_passes items \<longrightarrow>
         fst (validate_config load st name c) = (True, [Config_is_valid name])"
  proof (intro allI impI)
    fix nodes items
    assume h: "map_of config ''name'' \<noteq> None \<and> map_of config ''version'' \<noteq> None
         \<and> py_iter (case map_of config ''nodes'' of None \<Rightarrow> YList [] | Some v \<Rightarrow> v) = Inr nodes
         \<and> list_all node_passes nodes
         \<and> (case map_of config ''models'' of None \<Rightarrow> YDict [] | Some v \<Rightarrow> v) = YDict items
         \<and> list_all category_passes items"
    then have r: "check_required required_fields config = None"
      by (simp add: check_required_fields(3))
    from h have n: "check_nodes nodes = None" by (simp add: check_nodes_pass)
    from h have i: "py_iter (case map_of config ''nodes'' of None \<Rightarrow> YList [] | Some v \<Rightarrow> v) = Inr nodes"
      and md: "(case map_of config ''models'' of None \<Rightarrow> YDict [] | Some v \<Rightarrow> v) = YDict items"
      by simp_all
    from h have m: "check_models items = Inr None" by (simp add: check_models_pass)
    from check_document_stages(3)[OF r i n md] m
    have "check_document config = Inr None" by simp
    then show "fst (validate_config load st name c) = (True, [Config_is_valid name])"
      unfolding v by simp
  qed
  from one f1 f2 f3 f4 f5 show ?thesis by blast
qed

theorem validation_first_offence_witness:
  "fst (validate_config (load_config ex_vstore (Suc 0)) ex_vstore ''nameless'' Map.empty) =
     (False, [Missing_required_field ''name''])
   \<and> fst (validate_config (load_config ex_vstore (Suc 0)) ex_vstore ''bad'' Map.empty) =
     (False, [Missing_required_field ''version''])
   \<and> fst (validate_config (load_config ex_ostore (Suc 0)) ex_ostore ''badnode'' Map.empty) =
     (False, [Node_missing_URL (YDict [(''branch'', YStr ''main'')])])
   \<and> fst (validate_config (load_config ex_ostore (Suc 0)) ex_ostore ''badmodel'' Map.empty) =
     (False, [Model_missing_required_fields (YDict [(''url'', YStr ''u2'')])])"
proof -
  have s1: "ex_vstore ''nameless'' \<noteq> None" and s2: "ex_vstore ''bad'' \<noteq> None"
    by (simp_all add: ex_vstore_simps)
  have s3: "ex_ostore ''badnode'' \<noteq> None" and s4: "ex_ostore ''badmodel'' \<noteq> None"
    by (simp_all add: ex_ostore_def)
  have n1: "map_of ex_nameless ''name'' = None" by (simp add: ex_nameless_def)
  have n2: "map_of ex_bad ''name'' \<noteq> None \<and> map_of ex_bad ''version'' = None"
    by (simp add: ex_bad_def)
  from validation_first_offence[where load="load_config ex_vstore (Suc 0)" and st=ex_vstore
      and name="''nameless''" and c=Map.empty, OF s1 ex_vstore_load(2)] n1
  have r1: "fst (validate_config (load_config ex_vstore (Suc 0)) ex_vstore ''nameless'' Map.empty) =
     (False, [Missing_required_field ''name''])"
    by blast
  from validation_first_offence[where load="load_config ex_vstore (Suc 0)" and st=ex_vstore
      and name="''bad''" and c=Map.empty, OF s2 ex_vstore_load(1)] n2
  have r2: "fst (validate_config (load_config ex_vstore (Suc 0)) ex_vstore ''bad'' Map.empty) =
     (False, [Missing_required_field ''version''])"
    by blast
  from validation_first_offence[where load="load_config ex_ostore (Suc 0)" and st=ex_ostore
      and name="''badnode''" and c=Map.empty, OF s3 ex_ostore_load(1)] ex_badnode_facts
  have r3: "fst (validate_config (load_config ex_ostore (Suc 0)) ex_ostore ''badnode'' Map.empty) =
     (False, [Node_missing_URL (YDict [(''branch'', YStr ''main'')])])"
    by blast
  from validation_first_offence[where load="load_config ex_ostore (Suc 0)" and st=ex_ostore
      and name="''badmodel''" and c=Map.empty, OF s4 ex_ostore_load(2)] ex_badmodel_facts
  have r4: "fst (validate_config (load_config ex_ostore (Suc 0)) ex_ostore ''badmodel'' Map.empty) =
     (False, [Model_missing_required_fields (YDict [(''url'', YStr ''u2'')])])"
    by blast
  from r1 r2 r3 r4 show ?thesis by blast
qed

text \<open>
  C6 as stated fails on the document \<open>bad\<close>, which lacks \<open>version\<close> and has a model
  without \<open>url\<close>: the check of the models would report the model, and validation logs
  only the missing field.
\<close>

theorem validation_collects_counterexample:
  "map_of ex_bad ''version'' = None
   \<and> map_of ex_bad ''models'' = Some (YDict [(''checkpoints'', YList [YDict [(''name'', YStr ''m1'')]])])
   \<and> check_models [(''checkpoints'', YList [YDict [(''name'', YStr ''m1'')]])] =
       Inr (Some (Model_missing_required_fields (YDict [(''name'', YStr ''m1'')])))
   \<and> validate_config (load_config ex_vstore (Suc 0)) ex_vstore ''bad'' Map.empty =
       ((False, [Missing_required_field ''version'']), [''bad'' \<mapsto> ex_bad])"
proof -
  have "map_of ex_bad ''version'' = None"
    and "map_of ex_bad ''models'' = Some (YDict [(''checkpoints'', YList [YDict [(''name'', YStr ''m1'')]])])"
    by (simp_all add: ex_bad_def)
  moreover have "check_models [(''checkpoints'', YList [YDict [(''name'', YStr ''m1'')]])] =
       Inr (Some (Model_missing_required_fields (YDict [(''name'', YStr ''m1'')])))"
    by simp
  ultimately show ?thesis using ex_validate(1) by simp
qed

text \<open>
  C7. When either loader has returned a document for a name, a second call for the same
  name returns the same document from the cache and leaves the cache as it is, and no
  later call for any name changes the document cached under the first name.
\<close>

theorem resolve_twice:
  "(\<forall>d c'. load_config st limit name c = (Inr d, c') \<longrightarrow>
       load_config st (Suc limit') name c' = (Inr d, c')
       \<and> (\<forall>l m. snd (load_config st l m c') name = Some d))
 \<and> (\<forall>d c'. load_config_hiyapyco h st name c = (Inr d, c') \<longrightarrow>
       load_config_hiyapyco h st name c' = (Inr d, c')
       \<and> (\<forall>m. snd (load_config_hiyapyco h st m c') name = Some d))"
proof (intro conjI allI impI)
  fix d c' assume "load_config st limit name c = (Inr d, c')"
  then have s: "c' name = Some d" by (rule load_config_stores)
  then show "load_config st (Suc limit') name c' = (Inr d, c')" by (simp add: load_config_cached)
  fix l m from s show "snd (load_config st l m c') name = Some d" by (rule load_config_keeps)
next
  fix d c' assume "load_config_hiyapyco h st name c = (Inr d, c')"
  from hiyapyco_result[OF this] have s: "c' name = Some d" by auto
  then show "load_config_hiyapyco h st name c' = (Inr d, c')" by (simp add: hiyapyco_cached)
  fix m from s show "snd (load_config_hiyapyco h st m c') name = Some d" by (rule hiyapyco_keeps)
qed

theorem resolve_twice_witness:
  "load_config ex_store (Suc (Suc 0)) ''child'' Map.empty =
       (Inr (merge_dicts ex_base ex_child),
        [''base'' \<mapsto> ex_base, ''child'' \<mapsto> merge_dicts ex_base ex_child])
   \<and> load_config ex_store (Suc 0) ''child''
         [''base'' \<mapsto> ex_base, ''child'' \<mapsto> merge_dicts ex_base ex_child] =
       (Inr (merge_dicts ex_base ex_child),
        [''base'' \<mapsto> ex_base, ''child'' \<mapsto> merge_dicts ex_base ex_child])
   \<and> snd (load_config ex_store (Suc (Suc 0)) ''orphan''
         [''base'' \<mapsto> ex_base, ''child'' \<mapsto> merge_dicts ex_base ex_child]) ''child'' =
       Some (merge_dicts ex_base ex_child)
   \<and> load_config_hiyapyco ex_hiyapyco_load ex_store ''child''
         [''child'' \<mapsto> AList.delete ''extends'' (merge_dicts ex_base ex_source)] =
       (Inr (AList.delete ''extends'' (merge_dicts ex_base ex_source)),
        [''child'' \<mapsto> AList.delete ''extends'' (merge_dicts ex_base ex_source)])"
  using resolve_twice[of ex_store "Suc (Suc 0)" "''child''" Map.empty 0 ex_hiyapyco_load]
    ex_load_child[of 0] ex_hiyapyco_child
  by simp



text \<open>
  C9. \<^verbatim>\<open>create_config\<close>, for a name without a source file, writes a configuration
  that has the marker \<^verbatim>\<open>!include base\<close> as the only entry of \<open>nodes\<close> and of
  \<open>requirements\<close> (and writes nothing when the file exists). When the simple loader
  returns a document for an uncached name whose source has distinct keys and holds a
  sequence with the marker under a key, the returned document holds under that key a
  sequence that ends with the source's sequence unchanged, marker included: nothing in
  front of it when the source has no \<^verbatim>\<open>extends\<close>, and otherwise the ancestor's
  sequence under that key (nothing when the ancestor holds no sequence there). So the
  document the loader returns for a configuration that \<^verbatim>\<open>create_config\<close> has just
  written has the marker as the last entry of \<open>nodes\<close> and of \<open>requirements\<close>.
\<close>

theorem include_marker_kept:
  assumes "c n = None" and "st n = Some config" and "distinct (map fst config)"
    and "k \<noteq> ''extends''" and "map_of config k = Some (YList xs)"
    and "YStr ''!include base'' \<in> set xs"
    and "load_config st limit n c = (Inr d, c')"
  shows "map_of (config_data name base_image) ''nodes'' = Some (YList [YStr ''!include base''])
       \<and> map_of (config_data name base_image) ''requirements'' = Some (YList [YStr ''!include base''])
       \<and> (\<exists>pre. map_of d k = Some (YList (pre @ xs))
              \<and> YStr ''!include base'' \<in> set (pre @ xs)
              \<and> (map_of config ''extends'' = None \<longrightarrow> pre = [])
              \<and> (\<forall>s base c1. map_of config ''extends'' = Some (YStr s)
                    \<and> load_config st (limit - 1) (strip_name s) c = (Inr base, c1)
                    \<longrightarrow> pre = (case map_of base k of Some (YList ys) \<Rightarrow> ys | _ \<Rightarrow> [])))
       \<and> (\<forall>st0. st0 name = None \<longrightarrow>
              (\<exists>st1. create_config st0 name base_image = (True, st1)
                 \<and> st1 name = Some (config_data name base_image)
                 \<and> (\<forall>m. m \<noteq> name \<longrightarrow> st1 m = st0 m)))
       \<and> (\<forall>st0. st0 name \<noteq> None \<longrightarrow> create_config st0 name base_image = (False, st0))
       \<and> (\<forall>st0 c0 l d0 c1. st0 name = None \<and> c0 name = None
              \<and> load_config (snd (create_config st0 name base_image)) l name c0 = (Inr d0, c1) \<longrightarrow>
              (\<exists>pre1 pre2.
                 map_of d0 ''nodes'' = Some (YList (pre1 @ [YStr ''!include base'']))
               \<and> map_of d0 ''requirements'' = Some (YList (pre2 @ [YStr ''!include base'']))))"
proof -
  from load_config_list_entry[OF assms(1-5) assms(7)] assms(6)
  have g: "\<exists>pre. map_of d k = Some (YList (pre @ xs))
              \<and> YStr ''!include base'' \<in> set (pre @ xs)
              \<and> (map_of config ''extends'' = None \<longrightarrow> pre = [])
              \<and> (\<forall>s base c1. map_of config ''extends'' = Some (YStr s)
                    \<and> load_config st (limit - 1) (strip_name s) c = (Inr base, c1)
                    \<longrightarrow> pre = (case map_of base k of Some (YList ys) \<Rightarrow> ys | _ \<Rightarrow> []))"
    by auto
  have w: "\<forall>st0. st0 name = None \<longrightarrow>
              (\<exists>st1. create_config st0 name base_image = (True, st1)
                 \<and> st1 name = Some (config_data name base_image)
                 \<and> (\<forall>m. m \<noteq> name \<longrightarrow> st1 m = st0 m))"
    by (simp add: create_config_new)
  have x: "\<forall>st0. st0 name \<noteq> None \<longrightarrow> create_config st0 name base_image = (False, st0)"
    by (simp add: create_config_def)
  have r: "\<forall>st0 c0 l d0 c1. st0 name = None \<and> c0 name = None
              \<and> load_config (snd (create_config st0 name base_image)) l name c0 = (Inr d0, c1) \<longrightarrow>
              (\<exists>pre1 pre2.
                 map_of d0 ''nodes'' = Some (YList (pre1 @ [YStr ''!include base'']))
               \<and> map_of d0 ''requirements'' = Some (YList (pre2 @ [YStr ''!include base''])))"
  proof (intro allI impI)
    fix st0 :: store and c0 :: cache and l d0 c1
    assume h: "st0 name = None \<and> c0 name = None
              \<and> load_config (snd (create_config st0 name base_image)) l name c0 = (Inr d0, c1)"
    let ?st1 = "st0(name \<mapsto> config_data name base_image)"
    from h create_config_new[of st0 name base_image]
    have ld: "load_config ?st1 l name c0 = (Inr d0, c1)" by simp
    have s1: "?st1 name = Some (config_data name base_image)" by simp
    from h have c0: "c0 name = None" by simp
    have k1: "''nodes'' \<noteq> ''extends''" and k2: "''requirements'' \<noteq> ''extends''" by simp_all
    from load_config_list_entry[OF c0 s1 config_data_distinct k1 config_data_marker(1) ld]
    obtain pre1 where p1: "map_of d0 ''nodes'' = Some (YList (pre1 @ [YStr ''!include base'']))"
      by blast
    from load_config_list_entry[OF c0 s1 config_data_distinct k2 config_data_marker(2) ld]
    obtain pre2 where p2: "map_of d0 ''requirements'' = Some (YList (pre2 @ [YStr ''!include base'']))"
      by blast
    from p1 p2 show "\<exists>pre1 pre2.
                 map_of d0 ''nodes'' = Some (YList (pre1 @ [YStr ''!include base'']))
               \<and> map_of d0 ''requirements'' = Some (YList (pre2 @ [YStr ''!include base'']))"
      by blast
  qed
  from g w x r config_data_marker(1,2) show ?thesis by blast
qed

theorem include_marker_kept_witness:
  "ex_store ''mine'' = None
   \<and> create_config ex_store ''mine'' ''effekt/runpod-comfyui:base'' = (True, ex_created)
   \<and> ex_created ''mine'' = Some (config_data ''mine'' ''effekt/runpod-comfyui:base'')
   \<and> load_config ex_created (Suc (Suc 0)) ''mine'' Map.empty =
       (Inr (merge_dicts ex_base
               (AList.delete ''extends'' (config_data ''mine'' ''effekt/runpod-comfyui:base''))),
        [''base'' \<mapsto> ex_base,
         ''mine'' \<mapsto> merge_dicts ex_base
               (AList.delete ''extends'' (config_data ''mine'' ''effekt/runpod-comfyui:base''))])
   \<and> map_of (merge_dicts ex_base
             (AList.delete ''extends'' (config_data ''mine'' ''effekt/runpod-comfyui:base'')))
          ''nodes'' = Some (YList [YStr ''repoA'', YStr ''!include base''])"
proof -
  have m: "YStr ''!include base'' \<in> set [YStr ''!include base'']" by simp
  have k: "''nodes'' \<noteq> ''extends''" by simp
  have e: "Map.empty ''mine'' = (None :: doc option)" by simp
  have n: "ex_store ''mine'' = None" by (simp add: ex_store_def)
  note t = include_marker_kept[OF e ex_created_simps(1) config_data_distinct k
      config_data_marker(1) m ex_created_load_mine, of "''mine''" "''effekt/runpod-comfyui:base''"]
  from t n obtain st1 where
    "create_config ex_store ''mine'' ''effekt/runpod-comfyui:base'' = (True, st1)"
    by blast
  then have cr: "create_config ex_store ''mine'' ''effekt/runpod-comfyui:base'' = (True, ex_created)"
    by (simp add: ex_created_def)
  from t obtain pre where
    p1: "map_of (merge_dicts ex_base
             (AList.delete ''extends'' (config_data ''mine'' ''effekt/runpod-comfyui:base'')))
          ''nodes'' = Some (YList (pre @ [YStr ''!include base'']))"
    and p2: "\<forall>s base c1. map_of (config_data ''mine'' ''effekt/runpod-comfyui:base'') ''extends''
                 = Some (YStr s)
               \<and> load_config ex_created (Suc (Suc 0) - 1) (strip_name s) Map.empty = (Inr base, c1)
               \<longrightarrow> pre = (case map_of base ''nodes'' of Some (YList ys) \<Rightarrow> ys | _ \<Rightarrow> [])"
    by blast
  from p2 config_data_marker(3)[of "''mine''" "''effekt/runpod-comfyui:base''"] ex_created_load_base
  have "pre = (case map_of ex_base ''nodes'' of Some (YList ys) \<Rightarrow> ys | _ \<Rightarrow> [])"
    by (simp add: ex_strip_simps)
  with ex_base_nodes have "pre = [YStr ''repoA'']" by simp
  with p1 n cr ex_created_simps(1) ex_created_load_mine show ?thesis by simp
qed

text \<open>
  C10, as the code has it. For a non-empty list of requirements and every hash table,
  the file is written and holds, joined by newlines, the entries of the set in the order
  of iteration: they are the entries of the input, each exactly once, as many as the
  input has distinct entries. When no entry contains a newline they are the lines of the
  file. The order is the table's: the input order of distinct entries is kept when the
  positions rise along the input, and two entries are swapped when the table puts the
  second before the first.
\<close>

theorem requirements_deduplicated:
  assumes "requirements \<noteq> []"
  shows "\<exists>written. process_requirements slot requirements = (True, Some (join [newline] written))
           \<and> written = py_list slot (py_set requirements)
           \<and> set written = set requirements
           \<and> distinct written
           \<and> length written = card (set requirements)
           \<and> (\<forall>r\<in>set requirements. count_list written r = 1)
           \<and> ((\<forall>r\<in>set requirements. newline \<notin> set r) \<longrightarrow>
                 lines_of (join [newline] written) = written)
           \<and> (distinct requirements
                 \<and> sorted (map (slot requirements) requirements) \<longrightarrow> written = requirements)
           \<and> (\<forall>a b. requirements = [a, b] \<and> slot [a, b] b < slot [a, b] a \<longrightarrow> written = [b, a])"
proof -
  let ?w = "py_list slot (py_set requirements)"
  have p: "process_requirements slot requirements = (True, Some (join [newline] ?w))"
    using assms by (simp add: process_requirements_def Let_def)
  have s: "set ?w = set requirements" by (simp add: py_list_set py_set_set)
  have d: "distinct ?w" by (simp add: py_list_distinct py_set_distinct)
  have c: "length ?w = card (set requirements)"
    using distinct_card[OF d] s by simp
  have o: "\<forall>r\<in>set requirements. count_list ?w r = 1"
    using d s by (simp add: count_list_distinct)
  from assms s have ne: "?w \<noteq> []" by auto
  have l: "(\<forall>r\<in>set requirements. newline \<notin> set r) \<longrightarrow> lines_of (join [newline] ?w) = ?w"
  proof
    assume "\<forall>r\<in>set requirements. newline \<notin> set r"
    with s have nn: "\<forall>y\<in>set ?w. newline \<notin> set y" by simp
    show "lines_of (join [newline] ?w) = ?w" by (rule lines_of_join[OF ne nn])
  qed
  have k: "distinct requirements \<and> sorted (map (slot requirements) requirements)
             \<longrightarrow> ?w = requirements"
    by (auto simp: py_set_distinct_id py_list_sorted)
  have r: "\<forall>a b. requirements = [a, b] \<and> slot [a, b] b < slot [a, b] a \<longrightarrow> ?w = [b, a]"
  proof (intro allI impI)
    fix a b assume h: "requirements = [a, b] \<and> slot [a, b] b < slot [a, b] a"
    then have "a \<noteq> b" by auto
    then have "py_set [a, b] = [a, b]" by (simp add: py_set_distinct_id)
    with h show "?w = [b, a]" by (auto simp: py_list_def)
  qed
  from p s d c o l k r show ?thesis by blast
qed

theorem requirements_deduplicated_witness:
  "[''torch'', ''numpy'', ''torch''] \<noteq> []
   \<and> process_requirements ex_slot [''torch'', ''numpy'', ''torch''] =
       (True, Some (''numpy'' @ [newline] @ ''torch''))
   \<and> lines_of (''numpy'' @ [newline] @ ''torch'') = [''numpy'', ''torch'']
   \<and> process_requirements ex_slot [''numpy'', ''torch''] =
       (True, Some (''torch'' @ [newline] @ ''numpy''))"
proof -
  have h1: "[''torch'', ''numpy'', ''torch''] \<noteq> []" and h2: "[''numpy'', ''torch''] \<noteq> []"
    by simp_all
  from requirements_deduplicated[OF h1, of ex_slot]
  have a: "process_requirements ex_slot [''torch'', ''numpy'', ''torch''] =
       (True, Some (''numpy'' @ [newline] @ ''torch''))"
    by (auto simp: ex_py_set ex_py_list)
  from requirements_deduplicated[OF h1, of ex_slot]
  have b: "lines_of (''numpy'' @ [newline] @ ''torch'') = [''numpy'', ''torch'']"
    by (auto simp: ex_py_set ex_py_list newline_def)
  from requirements_deduplicated[OF h2, of ex_slot]
  have c: "process_requirements ex_slot [''numpy'', ''torch''] =
       (True, Some (''torch'' @ [newline] @ ''numpy''))"
    by (auto simp: ex_py_set ex_py_list)
  from h1 a b c show ?thesis by blast
qed

text \<open>
  C10 as stated fails on two lists: an entry that contains a newline is written as two
  lines, so the lines of the file are not the entries; and with a table that keeps the
  order of insertion the two entries \<open>numpy\<close>, \<open>torch\<close> are written in the input order.
\<close>

theorem requirements_counterexample:
  "process_requirements ex_slot_kept [''numpy'' @ [newline] @ ''torch''] =
       (True, Some (''numpy'' @ [newline] @ ''torch''))
   \<and> set (lines_of (''numpy'' @ [newline] @ ''torch'')) \<noteq> set [''numpy'' @ [newline] @ ''torch'']
   \<and> process_requirements ex_slot_kept [''numpy'', ''torch''] =
       (True, Some (''numpy'' @ [newline] @ ''torch''))
   \<and> lines_of (''numpy'' @ [newline] @ ''torch'') = [''numpy'', ''torch'']"
proof -
  have l: "lines_of (''numpy'' @ [newline] @ ''torch'') = [''numpy'', ''torch'']"
    by (simp add: newline_def)
  have s: "py_set [''numpy'' @ [newline] @ ''torch''] = [''numpy'' @ [newline] @ ''torch'']"
    by (simp add: py_set_def set_add_def)
  have a: "process_requirements ex_slot_kept [''numpy'' @ [newline] @ ''torch''] =
       (True, Some (''numpy'' @ [newline] @ ''torch''))"
    unfolding process_requirements_def Let_def s by (simp add: py_list_def)
  have b: "process_requirements ex_slot_kept [''numpy'', ''torch''] =
       (True, Some (''numpy'' @ [newline] @ ''torch''))"
    by (simp add: process_requirements_def Let_def ex_py_set ex_py_list)
  have n: "set (lines_of (''numpy'' @ [newline] @ ''torch'')) \<noteq> set [''numpy'' @ [newline] @ ''torch'']"
    unfolding l by (auto simp: newline_def)
  from a n b l show ?thesis by blast
qed

end
